theory Spec2Isabelle
  imports
    Complex_Main
    "HOL-Library.Char_ord"
    "HOL-Library.List_Lexorder"
    "HOL-Library.Product_Lexorder"
    "HOL-Library.Option_ord"
    "HOL-Library.Multiset"
begin

section \<open>The task board: request handlers over one SQL table\<close>

text \<open>
  The handlers modelled here are those of \<^verbatim>\<open>src/tests/app.ts\<close>, the variant of the
  application that validates its input, filters the listing by owner and broadcasts every
  mutation; the table is the one created in the test set-up
  (\<^verbatim>\<open>CREATE TABLE tasks\<close>), whose schema the production server repeats word for word.
\<close>

subsection \<open>Values of a request body\<close>

text \<open>
  A number that a handler receives is an IEEE double: \<^verbatim>\<open>express.json\<close> parses the body
  with \<^verbatim>\<open>JSON.parse\<close>. A finite double is given by its exact value; the literal \<^verbatim>\<open>-0\<close>
  yields negative zero and a literal too large for a double yields an infinity.
\<close>

datatype number = Finite rat | PosInf | NegInf | NegZero

text \<open>The number of binary digits of a natural number.\<close>

fun bit_length :: "nat \<Rightarrow> nat" where
  "bit_length n = (if n = 0 then 0 else Suc (bit_length (n div 2)))"

text \<open>\<open>m\<close> rounded to the nearest multiple of \<open>2 ^ k\<close>, a tie going to the even multiple.\<close>

definition round_nearest_even :: "nat \<Rightarrow> nat \<Rightarrow> nat" where
  "round_nearest_even k m =
     (let q = m div 2 ^ k; r = m mod 2 ^ k
      in (if 2 ^ k < 2 * r \<or> (2 * r = 2 ^ k \<and> odd q) then q + 1 else q) * 2 ^ k)"

text \<open>
  The double that \<^verbatim>\<open>JSON.parse\<close> makes of an integer literal: the integer itself up to
  \<open>2 ^ 53\<close> in magnitude, beyond that the nearest number with 53 significant bits, and
  an infinity from \<open>2 ^ 1024\<close> on.
\<close>

definition double_of_int :: "int \<Rightarrow> number" where
  "double_of_int n =
     (if \<bar>n\<bar> \<le> 2 ^ 53 then Finite (of_int n)
      else
        (let m = round_nearest_even (bit_length (nat \<bar>n\<bar>) - 53) (nat \<bar>n\<bar>)
         in if m < 2 ^ 1024 then Finite (of_int (sgn n * int m))
            else if n < 0 then NegInf else PosInf))"

text \<open>
  A key of the JSON body is absent (\<^verbatim>\<open>undefined\<close> after destructuring) or carries any
  JSON value.
\<close>

datatype jsval =
    Undefined
  | JNull
  | JBool bool
  | JNum number
  | JStr string
  | JArr "jsval list"
  | JObj "(string \<times> jsval) list"

fun is_zero :: "number \<Rightarrow> bool" where
  "is_zero (Finite q) = (q = 0)"
| "is_zero NegZero = True"
| "is_zero _ = False"

text \<open>
  JavaScript truthiness: \<^verbatim>\<open>undefined\<close>, \<^verbatim>\<open>null\<close>, \<^verbatim>\<open>false\<close>, \<^verbatim>\<open>0\<close>, \<^verbatim>\<open>-0\<close> and
  \<^verbatim>\<open>''\<close> are falsy; every array and object is truthy.
\<close>

fun truthy :: "jsval \<Rightarrow> bool" where
  "truthy Undefined = False"
| "truthy JNull = False"
| "truthy (JBool b) = b"
| "truthy (JNum d) = (\<not> is_zero d)"
| "truthy (JStr s) = (s \<noteq> [])"
| "truthy (JArr xs) = True"
| "truthy (JObj m) = True"

text \<open>\<^verbatim>\<open>x || d\<close>: the left operand when it is truthy, the right one otherwise.\<close>

definition js_or :: "jsval \<Rightarrow> jsval \<Rightarrow> jsval" where
  "js_or x d = (if truthy x then x else d)"

text \<open>\<^verbatim>\<open>x ?? null\<close>: only \<^verbatim>\<open>undefined\<close> and \<^verbatim>\<open>null\<close> give way to the right operand.\<close>

fun nullish_null :: "jsval \<Rightarrow> jsval" where
  "nullish_null Undefined = JNull"
| "nullish_null x = x"

text \<open>\<^verbatim>\<open>[...].includes(x)\<close> compares with strict equality, so only a string can be found.\<close>

fun includes_str :: "string list \<Rightarrow> jsval \<Rightarrow> bool" where
  "includes_str xs (JStr s) = (s \<in> set xs)"
| "includes_str xs _ = False"

record body =
  b_title :: jsval
  b_description :: jsval
  b_owner :: jsval
  b_priority :: jsval
  b_status :: jsval
  b_position :: jsval

text \<open>
  A query parameter is absent, a string, or (for a repeated or bracketed key) an array or
  object, for which \<^verbatim>\<open>typeof owner === 'string'\<close> is false.
\<close>

datatype qparam = QAbsent | QString string | QOther

subsection \<open>Statement parameters\<close>

text \<open>The values SQLite stores: NULL, an integer, a real that is not stored as an integer, a text.\<close>

datatype sqlval = SNull | SInt int | SReal number | SText string

text \<open>
  What can go wrong when a statement runs: the driver refuses the arguments (a value it
  cannot bind, or not as many values as the statement has placeholders), or the table
  refuses the row (NOT NULL, CHECK).
\<close>

datatype sql_error = DriverError | ConstraintFailed

text \<open>
  The driver binds a number as a double, a string as text, and \<^verbatim>\<open>null\<close> or
  \<^verbatim>\<open>undefined\<close> as NULL; it raises a \<^verbatim>\<open>TypeError\<close> for any other value.
\<close>

fun bind_value :: "jsval \<Rightarrow> sql_error + sqlval" where
  "bind_value Undefined = Inr SNull"
| "bind_value JNull = Inr SNull"
| "bind_value (JNum d) = Inr (SReal d)"
| "bind_value (JStr s) = Inr (SText s)"
| "bind_value _ = Inl DriverError"

text \<open>The members of an array argument, each bound as one value.\<close>

fun bind_list :: "jsval list \<Rightarrow> sql_error + sqlval list" where
  "bind_list [] = Inr []"
| "bind_list (v # vs) =
     (case bind_value v of
        Inl e \<Rightarrow> Inl e
      | Inr p \<Rightarrow> (case bind_list vs of Inl e \<Rightarrow> Inl e | Inr ps \<Rightarrow> Inr (p # ps)))"

text \<open>
  The arguments of \<^verbatim>\<open>stmt.run\<close> in order: an array argument stands for its members, a
  plain object holds named parameters (the statements here have none, so it binds nothing, and
  a second object is refused), any other argument is one value. The flag says whether an
  object has been seen.
\<close>

fun bind_args :: "bool \<Rightarrow> jsval list \<Rightarrow> sql_error + sqlval list" where
  "bind_args seen [] = Inr []"
| "bind_args seen (JArr xs # as) =
     (case bind_list xs of
        Inl e \<Rightarrow> Inl e
      | Inr ps \<Rightarrow> (case bind_args seen as of Inl e \<Rightarrow> Inl e | Inr qs \<Rightarrow> Inr (ps @ qs)))"
| "bind_args seen (JObj m # as) = (if seen then Inl DriverError else bind_args True as)"
| "bind_args seen (v # as) =
     (case bind_value v of
        Inl e \<Rightarrow> Inl e
      | Inr p \<Rightarrow> (case bind_args seen as of Inl e \<Rightarrow> Inl e | Inr qs \<Rightarrow> Inr (p # qs)))"

text \<open>
  The parameters of a statement with \<open>n\<close> placeholders: the bound values, of which there
  must be exactly \<open>n\<close> (a \<^verbatim>\<open>RangeError\<close> otherwise).
\<close>

definition stmt_params :: "nat \<Rightarrow> jsval list \<Rightarrow> sql_error + sqlval list" where
  "stmt_params n as =
     (case bind_args False as of
        Inl e \<Rightarrow> Inl e
      | Inr ps \<Rightarrow> if length ps = n then Inr ps else Inl DriverError)"

text \<open>
  How SQLite writes a number as text, and what it makes of a text stored in a numeric
  column (a number when the text reads as one, the text itself otherwise), is not part of
  the repository: the two conversions are a parameter of every definition that stores a
  value, and every theorem holds whatever they are.
\<close>

record conv =
  text_of_number :: "number \<Rightarrow> string"
  numeric_of_text :: "string \<Rightarrow> sqlval"

text \<open>A value stored in a column of TEXT affinity: \<open>None\<close> is NULL.\<close>

fun text_col :: "conv \<Rightarrow> sqlval \<Rightarrow> string option" where
  "text_col cv SNull = None"
| "text_col cv (SText s) = Some s"
| "text_col cv (SReal d) = Some (text_of_number cv d)"
| "text_col cv (SInt n) = Some (text_of_number cv (Finite (of_int n)))"

text \<open>
  A value stored in a column of INTEGER affinity: a real becomes an integer when it is one
  that a 64-bit integer holds.
\<close>

fun int_col :: "conv \<Rightarrow> sqlval \<Rightarrow> sqlval" where
  "int_col cv SNull = SNull"
| "int_col cv (SInt n) = SInt n"
| "int_col cv (SReal (Finite q)) =
     (if q = of_int \<lfloor>q\<rfloor> \<and> \<bar>q\<bar> < 2 ^ 63 then SInt \<lfloor>q\<rfloor> else SReal (Finite q))"
| "int_col cv (SReal NegZero) = SInt 0"
| "int_col cv (SReal d) = SReal d"
| "int_col cv (SText s) = numeric_of_text cv s"

subsection \<open>The table\<close>

text \<open>
  The columns of \<^verbatim>\<open>tasks\<close>. \<^verbatim>\<open>title\<close> and \<^verbatim>\<open>owner\<close> are NOT NULL and, like
  \<^verbatim>\<open>description\<close> and \<^verbatim>\<open>status\<close>, of TEXT affinity, so what they hold is a text
  (or NULL, \<open>None\<close>, where allowed); \<^verbatim>\<open>priority\<close> and \<^verbatim>\<open>position\<close> are of INTEGER
  affinity and hold whatever that affinity leaves. The two timestamps are only ever written
  from \<^verbatim>\<open>CURRENT_TIMESTAMP\<close>, modelled as the number of seconds the clock shows.
\<close>

record task =
  task_id :: int
  title :: string
  description :: "string option"
  owner :: string
  priority :: sqlval
  status :: "string option"
  position :: sqlval
  created_at :: nat
  updated_at :: nat

datatype payload = PTask "task option" | PId int

text \<open>
  What a subscriber's response stream receives: the opening comment
  \<^verbatim>\<open>: connected\<close>, then one frame \<^verbatim>\<open>event: <name>\ndata: <json>\n\n\<close> per broadcast,
  kept here as the event name and the value that is serialised.
\<close>

datatype chunk = Connected | Event string payload

record client =
  cid :: nat
  written :: "chunk list"

text \<open>
  The state: the rows of the table, the AUTOINCREMENT counter that SQLite keeps in
  \<^verbatim>\<open>sqlite_sequence\<close> (the largest rowid ever assigned), and the array \<^verbatim>\<open>sseClients\<close>.
\<close>

record state =
  rows :: "task list"
  sqlite_sequence :: int
  sseClients :: "client list"

definition init_state :: state where
  "init_state = \<lparr>rows = [], sqlite_sequence = 0, sseClients = []\<rparr>"

definition owners :: "string list" where
  "owners = [''oracle'', ''soheil'']"

definition statuses :: "string list" where
  "statuses = [''backlog'', ''in_progress'', ''done'']"

text \<open>The CHECK constraints of the schema; a CHECK over NULL does not fail.\<close>

definition check_owner :: "string \<Rightarrow> bool" where
  "check_owner ow = (ow \<in> set owners)"

fun check_status :: "string option \<Rightarrow> bool" where
  "check_status None = True"
| "check_status (Some s) = (s \<in> set statuses)"

definition row_ok :: "task \<Rightarrow> bool" where
  "row_ok t = (check_owner (owner t) \<and> check_status (status t))"

text \<open>\<^verbatim>\<open>SELECT * FROM tasks WHERE id = ?\<close> with \<^verbatim>\<open>.get\<close>: the row or \<^verbatim>\<open>undefined\<close>.\<close>

definition select_by_id :: "int \<Rightarrow> state \<Rightarrow> task option" where
  "select_by_id i st = find (\<lambda>t. task_id t = i) (rows st)"

text \<open>
  The order of \<^verbatim>\<open>ORDER BY\<close> on a column of INTEGER affinity: NULL first, then the
  numbers by value, then the texts bytewise.
\<close>

fun number_key :: "number \<Rightarrow> int \<times> rat" where
  "number_key (Finite q) = (0, q)"
| "number_key NegZero = (0, 0)"
| "number_key PosInf = (1, 0)"
| "number_key NegInf = (- 1, 0)"

fun position_key :: "sqlval \<Rightarrow> nat \<times> (int \<times> rat) \<times> string" where
  "position_key SNull = (0, (0, 0), [])"
| "position_key (SInt n) = (1, (0, of_int n), [])"
| "position_key (SReal d) = (1, number_key d, [])"
| "position_key (SText s) = (2, (0, 0), s)"

text \<open>\<^verbatim>\<open>ORDER BY status, position, id\<close>: ascending, NULL first, text compared bytewise.\<close>

definition order_key ::
  "task \<Rightarrow> string option \<times> (nat \<times> (int \<times> rat) \<times> string) \<times> int" where
  "order_key t = (status t, position_key (position t), task_id t)"

definition select_all :: "string option \<Rightarrow> state \<Rightarrow> task list" where
  "select_all w st =
     sort_key order_key
       (case w of None \<Rightarrow> rows st
                | Some ow \<Rightarrow> filter (\<lambda>t. owner t = ow) (rows st))"

text \<open>
  The rowid an AUTOINCREMENT insert assigns: one more than the larger of the counter and
  of every rowid in the table.
\<close>

definition next_rowid :: "state \<Rightarrow> int" where
  "next_rowid st = foldr (\<lambda>t m. max (task_id t) m) (rows st) (sqlite_sequence st) + 1"

text \<open>
  \<^verbatim>\<open>INSERT INTO tasks (title, description, owner, priority, status) VALUES (?, ?, ?, ?, ?)\<close>
  with its five parameters: \<^verbatim>\<open>position\<close> takes its default 0 and both timestamps the
  current time. A violated constraint raises and leaves the table as it was; otherwise the
  result carries \<^verbatim>\<open>lastInsertRowid\<close>.
\<close>

definition insert_task ::
  "conv \<Rightarrow> nat \<Rightarrow> sqlval list \<Rightarrow> state \<Rightarrow> sql_error + (int \<times> state)" where
  "insert_task cv now ps st =
     (case ps of
        [ti, de, ow, pr, sta] \<Rightarrow>
          (case (text_col cv ti, text_col cv ow) of
             (Some ti', Some ow') \<Rightarrow>
               (let t = \<lparr>task_id = next_rowid st, title = ti', description = text_col cv de,
                         owner = ow', priority = int_col cv pr, status = text_col cv sta,
                         position = SInt 0, created_at = now, updated_at = now\<rparr>
                in if row_ok t
                   then Inr (task_id t, st\<lparr>rows := rows st @ [t], sqlite_sequence := task_id t\<rparr>)
                   else Inl ConstraintFailed)
           | _ \<Rightarrow> Inl ConstraintFailed)
      | _ \<Rightarrow> Inl DriverError)"

text \<open>
  \<^verbatim>\<open>COALESCE(?, column)\<close> stored into the column: for a NOT NULL text column, for a text
  column that admits NULL, and for a column of INTEGER affinity.
\<close>

fun coalesce :: "'a option \<Rightarrow> 'a \<Rightarrow> 'a" where
  "coalesce None c = c"
| "coalesce (Some v) c = v"

fun coalesce_null :: "'a option \<Rightarrow> 'a option \<Rightarrow> 'a option" where
  "coalesce_null None c = c"
| "coalesce_null (Some v) c = Some v"

fun coalesce_int :: "conv \<Rightarrow> sqlval \<Rightarrow> sqlval \<Rightarrow> sqlval" where
  "coalesce_int cv SNull c = c"
| "coalesce_int cv p c = int_col cv p"

definition merge_row ::
  "conv \<Rightarrow> nat \<Rightarrow> sqlval \<Rightarrow> sqlval \<Rightarrow> sqlval \<Rightarrow> sqlval \<Rightarrow> sqlval \<Rightarrow> sqlval \<Rightarrow> task \<Rightarrow> task" where
  "merge_row cv now ti de ow pr sta po t =
     t\<lparr>title := coalesce (text_col cv ti) (title t),
       description := coalesce_null (text_col cv de) (description t),
       owner := coalesce (text_col cv ow) (owner t),
       priority := coalesce_int cv pr (priority t),
       status := coalesce_null (text_col cv sta) (status t),
       position := coalesce_int cv po (position t),
       updated_at := now\<rparr>"

text \<open>
  Running an UPDATE \<^verbatim>\<open>WHERE id = ?\<close>: every matching row is rewritten; if a rewritten row
  violates a CHECK the statement raises and changes nothing.
\<close>

definition run_update :: "(task \<Rightarrow> task) \<Rightarrow> int \<Rightarrow> state \<Rightarrow> sql_error + state" where
  "run_update f i st =
     (let rs = map (\<lambda>t. if task_id t = i then f t else t) (rows st)
      in if list_all (\<lambda>t. task_id t = i \<longrightarrow> row_ok (f t)) (rows st)
         then Inr (st\<lparr>rows := rs\<rparr>)
         else Inl ConstraintFailed)"

text \<open>
  The UPDATE of the PUT handler (six COALESCE assignments and the timestamp) with its six
  parameters before the id.
\<close>

definition update_task :: "conv \<Rightarrow> nat \<Rightarrow> sqlval list \<Rightarrow> int \<Rightarrow> state \<Rightarrow> sql_error + state" where
  "update_task cv now ps i st =
     (case ps of
        [ti, de, ow, pr, sta, po] \<Rightarrow> run_update (merge_row cv now ti de ow pr sta po) i st
      | _ \<Rightarrow> Inl DriverError)"

text \<open>
  \<^verbatim>\<open>UPDATE tasks SET status = ?, position = ?, updated_at = CURRENT_TIMESTAMP WHERE id = ?\<close>
  with its two parameters before the id.
\<close>

definition move_assign :: "conv \<Rightarrow> nat \<Rightarrow> sqlval \<Rightarrow> sqlval \<Rightarrow> task \<Rightarrow> task" where
  "move_assign cv now sta po t =
     t\<lparr>status := text_col cv sta, position := int_col cv po, updated_at := now\<rparr>"

definition update_move :: "conv \<Rightarrow> nat \<Rightarrow> sqlval list \<Rightarrow> int \<Rightarrow> state \<Rightarrow> sql_error + state" where
  "update_move cv now ps i st =
     (case ps of
        [sta, po] \<Rightarrow> run_update (move_assign cv now sta po) i st
      | _ \<Rightarrow> Inl DriverError)"

text \<open>\<^verbatim>\<open>DELETE FROM tasks WHERE id = ?\<close>.\<close>

definition delete_row :: "int \<Rightarrow> state \<Rightarrow> state" where
  "delete_row i st = st\<lparr>rows := filter (\<lambda>t. task_id t \<noteq> i) (rows st)\<rparr>"

subsection \<open>The broadcaster\<close>

definition broadcast :: "string \<Rightarrow> payload \<Rightarrow> state \<Rightarrow> state" where
  "broadcast event data st =
     st\<lparr>sseClients := map (\<lambda>c. c\<lparr>written := written c @ [Event event data]\<rparr>) (sseClients st)\<rparr>"

text \<open>
  \<^verbatim>\<open>GET /api/events\<close> for the response stream \<open>res\<close>: the comment is written and the
  stream joins the array. When the request closes, its first occurrence is spliced out.
\<close>

definition get_events :: "nat \<Rightarrow> state \<Rightarrow> state" where
  "get_events res st =
     st\<lparr>sseClients := sseClients st @ [\<lparr>cid = res, written = [Connected]\<rparr>]\<rparr>"

fun splice_first :: "nat \<Rightarrow> client list \<Rightarrow> client list" where
  "splice_first res [] = []"
| "splice_first res (c # cs) = (if cid c = res then cs else c # splice_first res cs)"

definition close_events :: "nat \<Rightarrow> state \<Rightarrow> state" where
  "close_events res st = st\<lparr>sseClients := splice_first res (sseClients st)\<rparr>"

subsection \<open>The handlers\<close>

text \<open>
  A handler answers with an error or a reply and leaves a new state. \<open>Uncaught\<close> is an
  exception that no handler catches (the framework answers 500). The POST handler catches
  what its statement raises and answers 400, as it does for a rejected body.
\<close>

datatype error = ValidationError string | NotFoundError string | Uncaught

datatype reply =
    Tasks "task list"
  | Created "task option"
  | Updated "task option"
  | NoContent
  | EventStream

fun http_status :: "error + reply \<Rightarrow> nat" where
  "http_status (Inl (ValidationError _)) = 400"
| "http_status (Inl (NotFoundError _)) = 404"
| "http_status (Inl Uncaught) = 500"
| "http_status (Inr (Created _)) = 201"
| "http_status (Inr NoContent) = 204"
| "http_status (Inr _) = 200"

text \<open>\<^verbatim>\<open>GET /api/tasks\<close>: the filter applies when \<^verbatim>\<open>owner\<close> is a non-empty string.\<close>

fun get_tasks :: "qparam \<Rightarrow> state \<Rightarrow> task list" where
  "get_tasks (QString ow) st = (if ow \<noteq> [] then select_all (Some ow) st else select_all None st)"
| "get_tasks _ st = select_all None st"

text \<open>\<^verbatim>\<open>POST /api/tasks\<close>. Everything from the statement on is inside the \<^verbatim>\<open>try\<close>.\<close>

definition post_task :: "conv \<Rightarrow> nat \<Rightarrow> body \<Rightarrow> state \<Rightarrow> (error + reply) \<times> state" where
  \<open>post_task cv now b st =
     (if \<not> truthy (b_title b) \<or> \<not> truthy (b_owner b)
      then (Inl (ValidationError ''Title and owner are required''), st)
      else if \<not> includes_str owners (b_owner b)
      then (Inl (ValidationError ''Owner must be "oracle" or "soheil"''), st)
      else if truthy (b_status b) \<and> \<not> includes_str statuses (b_status b)
      then (Inl (ValidationError ''Invalid status''), st)
      else
        (case stmt_params 5
                [b_title b,
                 js_or (b_description b) (JStr ''''),
                 b_owner b,
                 js_or (b_priority b) (JNum (Finite 1)),
                 js_or (b_status b) (JStr ''backlog'')] of
           Inl err \<Rightarrow> (Inl (ValidationError ''Failed to create task''), st)
         | Inr ps \<Rightarrow>
             (case insert_task cv now ps st of
                Inl err \<Rightarrow> (Inl (ValidationError ''Failed to create task''), st)
              | Inr (lastInsertRowid, st1) \<Rightarrow>
                  (let t = select_by_id lastInsertRowid st1
                   in (Inr (Created t), broadcast ''task-created'' (PTask t) st1)))))\<close>

text \<open>\<^verbatim>\<open>PUT /api/tasks/:id\<close>. The UPDATE is not inside a \<^verbatim>\<open>try\<close>.\<close>

definition put_task :: "conv \<Rightarrow> nat \<Rightarrow> int \<Rightarrow> body \<Rightarrow> state \<Rightarrow> (error + reply) \<times> state" where
  \<open>put_task cv now i b st =
     (case select_by_id i st of
        None \<Rightarrow> (Inl (NotFoundError ''Task not found''), st)
      | Some existing \<Rightarrow>
          if truthy (b_owner b) \<and> \<not> includes_str owners (b_owner b)
          then (Inl (ValidationError ''Owner must be "oracle" or "soheil"''), st)
          else if truthy (b_status b) \<and> \<not> includes_str statuses (b_status b)
          then (Inl (ValidationError ''Invalid status''), st)
          else
            (case stmt_params 6
                    [nullish_null (b_title b),
                     nullish_null (b_description b),
                     nullish_null (b_owner b),
                     nullish_null (b_priority b),
                     nullish_null (b_status b),
                     nullish_null (b_position b)] of
               Inl err \<Rightarrow> (Inl Uncaught, st)
             | Inr ps \<Rightarrow>
                 (case update_task cv now ps i st of
                    Inl err \<Rightarrow> (Inl Uncaught, st)
                  | Inr st1 \<Rightarrow>
                      (let t = select_by_id i st1
                       in (Inr (Updated t), broadcast ''task-updated'' (PTask t) st1)))))\<close>

text \<open>\<^verbatim>\<open>DELETE /api/tasks/:id\<close>; the payload is \<^verbatim>\<open>{ id: Number(id) }\<close>.\<close>

definition delete_task :: "int \<Rightarrow> state \<Rightarrow> (error + reply) \<times> state" where
  "delete_task i st =
     (case select_by_id i st of
        None \<Rightarrow> (Inl (NotFoundError ''Task not found''), st)
      | Some existing \<Rightarrow> (Inr NoContent, broadcast ''task-deleted'' (PId i) (delete_row i st)))"

text \<open>\<^verbatim>\<open>PATCH /api/tasks/:id/move\<close>. The UPDATE is not inside a \<^verbatim>\<open>try\<close>.\<close>

definition patch_move :: "conv \<Rightarrow> nat \<Rightarrow> int \<Rightarrow> body \<Rightarrow> state \<Rightarrow> (error + reply) \<times> state" where
  "patch_move cv now i b st =
     (case select_by_id i st of
        None \<Rightarrow> (Inl (NotFoundError ''Task not found''), st)
      | Some existing \<Rightarrow>
          if \<not> truthy (b_status b) \<or> \<not> includes_str statuses (b_status b)
          then (Inl (ValidationError ''Valid status is required''), st)
          else
            (case stmt_params 2 [b_status b, js_or (b_position b) (JNum (Finite 0))] of
               Inl err \<Rightarrow> (Inl Uncaught, st)
             | Inr ps \<Rightarrow>
                 (case update_move cv now ps i st of
                    Inl err \<Rightarrow> (Inl Uncaught, st)
                  | Inr st1 \<Rightarrow>
                      (let t = select_by_id i st1
                       in (Inr (Updated t), broadcast ''task-updated'' (PTask t) st1)))))"

subsection \<open>Requests in sequence\<close>

text \<open>
  The path parameter \<^verbatim>\<open>:id\<close> is taken as the integer it denotes (it is the last argument
  of each statement and always binds as one value). Each request is handled at the time the
  clock shows when it arrives; \<^verbatim>\<open>GET /api/events\<close> answers with the open stream.
\<close>

datatype request =
    GetTasks qparam
  | PostTask body
  | PutTask int body
  | DeleteTask int
  | PatchMove int body
  | GetEvents nat

fun handle :: "conv \<Rightarrow> nat \<Rightarrow> request \<Rightarrow> state \<Rightarrow> (error + reply) \<times> state" where
  "handle cv now (GetTasks q) st = (Inr (Tasks (get_tasks q st)), st)"
| "handle cv now (PostTask b) st = post_task cv now b st"
| "handle cv now (PutTask i b) st = put_task cv now i b st"
| "handle cv now (DeleteTask i) st = delete_task i st"
| "handle cv now (PatchMove i b) st = patch_move cv now i b st"
| "handle cv now (GetEvents res) st = (Inr EventStream, get_events res st)"

text \<open>What happens to the service: a request arrives, or the connection of a stream closes.\<close>

datatype event = Request request | Close nat

fun step :: "conv \<Rightarrow> nat \<Rightarrow> event \<Rightarrow> state \<Rightarrow> state" where
  "step cv now (Request r) st = snd (handle cv now r st)"
| "step cv now (Close res) st = close_events res st"

fun run :: "conv \<Rightarrow> state \<Rightarrow> (nat \<times> event) list \<Rightarrow> state" where
  "run cv st [] = st"
| "run cv st ((now, e) # es) = run cv (step cv now e st) es"

text \<open>
  The states the service reaches from the empty table when the clock never runs
  backwards; the second argument is the latest time the clock has shown.
\<close>

inductive reachable :: "conv \<Rightarrow> nat \<Rightarrow> state \<Rightarrow> bool" for cv where
  start: "reachable cv 0 init_state"
| step: "reachable cv clk st \<Longrightarrow> clk \<le> now \<Longrightarrow> reachable cv now (step cv now e st)"

definition empty_body :: body where
  "empty_body = \<lparr>b_title = Undefined, b_description = Undefined, b_owner = Undefined,
                  b_priority = Undefined, b_status = Undefined, b_position = Undefined\<rparr>"

subsection \<open>Derived notions used in the statements\<close>

text \<open>A value that the driver binds as one parameter, and the parameter it binds.\<close>

fun scalar :: "jsval \<Rightarrow> bool" where
  "scalar Undefined = True"
| "scalar JNull = True"
| "scalar (JNum d) = True"
| "scalar (JStr s) = True"
| "scalar _ = False"

fun to_sql :: "jsval \<Rightarrow> sqlval" where
  "to_sql (JNum d) = SReal d"
| "to_sql (JStr s) = SText s"
| "to_sql _ = SNull"

text \<open>A body that passes the three checks of the POST handler.\<close>

definition post_valid :: "body \<Rightarrow> bool" where
  "post_valid b =
     (truthy (b_title b) \<and> includes_str owners (b_owner b) \<and>
      (truthy (b_status b) \<longrightarrow> includes_str statuses (b_status b)))"

text \<open>The arguments that the three handlers pass to their statements (before the id).\<close>

definition post_args :: "body \<Rightarrow> jsval list" where
  "post_args b =
     [b_title b, js_or (b_description b) (JStr []), b_owner b,
      js_or (b_priority b) (JNum (Finite 1)), js_or (b_status b) (JStr ''backlog'')]"

definition put_args :: "body \<Rightarrow> jsval list" where
  "put_args b =
     [nullish_null (b_title b), nullish_null (b_description b), nullish_null (b_owner b),
      nullish_null (b_priority b), nullish_null (b_status b), nullish_null (b_position b)]"

definition move_args :: "body \<Rightarrow> jsval list" where
  "move_args b = [b_status b, js_or (b_position b) (JNum (Finite 0))]"

text \<open>The status of the body is one of the three values of the enumeration.\<close>

definition status_in_enum :: "body \<Rightarrow> bool" where
  "status_in_enum b =
     (b_status b = JStr ''backlog'' \<or> b_status b = JStr ''in_progress'' \<or>
      b_status b = JStr ''done'')"

text \<open>An array or an object: as an argument of a statement it does not stand for one value.\<close>

fun container :: "jsval \<Rightarrow> bool" where
  "container (JArr xs) = True"
| "container (JObj m) = True"
| "container _ = False"

text \<open>
  The title, description and priority of the body are plain: none of them is \<^verbatim>\<open>true\<close>, an
  array or an object. (\<^verbatim>\<open>false\<close> is falsy and gives way to the default.)
\<close>

definition plain_values :: "body \<Rightarrow> bool" where
  "plain_values b =
     (b_title b \<noteq> JBool True \<and> \<not> container (b_title b) \<and>
      b_description b \<noteq> JBool True \<and> \<not> container (b_description b) \<and>
      b_priority b \<noteq> JBool True \<and> \<not> container (b_priority b))"

text \<open>Neither the title nor the description nor the priority of the body is an array or an object.\<close>

definition no_containers :: "body \<Rightarrow> bool" where
  "no_containers b =
     (\<not> container (b_title b) \<and> \<not> container (b_description b) \<and> \<not> container (b_priority b))"

text \<open>The row that a create with plain values inserts.\<close>

definition new_row :: "conv \<Rightarrow> nat \<Rightarrow> body \<Rightarrow> state \<Rightarrow> task" where
  "new_row cv now b st =
     \<lparr>task_id = next_rowid st,
      title = coalesce (text_col cv (to_sql (b_title b))) [],
      description = text_col cv (to_sql (js_or (b_description b) (JStr []))),
      owner = coalesce (text_col cv (to_sql (b_owner b))) [],
      priority = int_col cv (to_sql (js_or (b_priority b) (JNum (Finite 1)))),
      status = text_col cv (to_sql (js_or (b_status b) (JStr ''backlog''))),
      position = SInt 0, created_at = now, updated_at = now\<rparr>"

text \<open>
  When the specification says a create is rejected: the title is falsy, or the owner is not
  one of the two values, or a status is supplied that is not one of the three values.
\<close>

definition spec_create_rejects :: "body \<Rightarrow> bool" where
  "spec_create_rejects b =
     (\<not> truthy (b_title b) \<or>
      \<not> (b_owner b = JStr ''oracle'' \<or> b_owner b = JStr ''soheil'') \<or>
      (b_status b \<noteq> Undefined \<and> b_status b \<noteq> JNull \<and> \<not> status_in_enum b))"

text \<open>The same with a falsy status (the empty string among them) counted as no status.\<close>

definition create_rejects :: "body \<Rightarrow> bool" where
  "create_rejects b =
     (\<not> truthy (b_title b) \<or>
      \<not> (b_owner b = JStr ''oracle'' \<or> b_owner b = JStr ''soheil'') \<or>
      (truthy (b_status b) \<and> \<not> status_in_enum b))"

subsection \<open>Concrete requests and states\<close>

text \<open>
  An instance of the two conversions for the concrete runs, none of which stores a number
  as text or a text in a numeric column.
\<close>

definition plain_conv :: conv where
  "plain_conv = \<lparr>text_of_number = (\<lambda>d. []), numeric_of_text = SText\<rparr>"

definition body_A :: body where
  "body_A = empty_body\<lparr>b_title := JStr ''A'', b_owner := JStr ''oracle''\<rparr>"

definition body_bad :: body where
  "body_bad = empty_body\<lparr>b_owner := JStr ''nobody'', b_status := JStr ''bogus''\<rparr>"

definition body_empty_status :: body where
  "body_empty_status = body_A\<lparr>b_status := JStr []\<rparr>"

definition body_true_title :: body where
  "body_true_title = body_A\<lparr>b_title := JBool True\<rparr>"

definition body_zero_priority :: body where
  "body_zero_priority = body_A\<lparr>b_priority := JNum (double_of_int 0)\<rparr>"

definition body_big_priority :: body where
  "body_big_priority = body_A\<lparr>b_priority := JNum (double_of_int 9007199254740993)\<rparr>"

definition body_priority_5 :: body where
  "body_priority_5 = body_A\<lparr>b_priority := JNum (double_of_int 5)\<rparr>"



definition body_done :: body where
  "body_done = empty_body\<lparr>b_status := JStr ''done''\<rparr>"

definition body_retitle :: body where
  "body_retitle = empty_body\<lparr>b_title := JStr ''B''\<rparr>"

definition state_A :: state where
  "state_A = snd (post_task plain_conv 5 body_A init_state)"

definition row_A :: task where
  "row_A = \<lparr>task_id = 1, title = ''A'', description = Some [], owner = ''oracle'',
            priority = SInt 1, status = Some ''backlog'', position = SInt 0,
            created_at = 5, updated_at = 5\<rparr>"

text \<open>The assignments of the PUT and of the move handler for a body whose values bind one by one.\<close>

definition put_merge :: "conv \<Rightarrow> nat \<Rightarrow> body \<Rightarrow> task \<Rightarrow> task" where
  "put_merge cv now b =
     merge_row cv now
       (to_sql (nullish_null (b_title b)))
       (to_sql (nullish_null (b_description b)))
       (to_sql (nullish_null (b_owner b)))
       (to_sql (nullish_null (b_priority b)))
       (to_sql (nullish_null (b_status b)))
       (to_sql (nullish_null (b_position b)))"

definition move_row :: "conv \<Rightarrow> nat \<Rightarrow> body \<Rightarrow> task \<Rightarrow> task" where
  "move_row cv now b =
     move_assign cv now (to_sql (b_status b)) (to_sql (js_or (b_position b) (JNum (Finite 0))))"

definition row_A_retitled :: task where
  "row_A_retitled = row_A\<lparr>title := ''B'', updated_at := 9\<rparr>"

definition row_A_done :: task where
  "row_A_done = row_A\<lparr>status := Some ''done'', updated_at := 9\<rparr>"

text \<open>The four rows that \<^verbatim>\<open>seedTestTasks\<close> inserts into an empty table.\<close>

definition seed_row :: "int \<Rightarrow> string \<Rightarrow> string \<Rightarrow> string \<Rightarrow> int \<Rightarrow> string \<Rightarrow> int \<Rightarrow> task" where
  "seed_row i ti de ow pr sta po =
     \<lparr>task_id = i, title = ti, description = Some de, owner = ow, priority = SInt pr,
      status = Some sta, position = SInt po, created_at = 0, updated_at = 0\<rparr>"

definition seed_1 :: task where
  "seed_1 = seed_row 1 ''Fix authentication bug'' ''Auth tokens expiring too early''
              ''oracle'' 3 ''in_progress'' 0"

definition seed_2 :: task where
  "seed_2 = seed_row 2 ''Design new dashboard'' ''Create mockups for v2''
              ''soheil'' 2 ''backlog'' 0"

definition seed_3 :: task where
  "seed_3 = seed_row 3 ''Write documentation'' ''API docs for developers''
              ''oracle'' 1 ''backlog'' 1"

definition seed_4 :: task where
  "seed_4 = seed_row 4 ''Deploy to production'' ''Final deployment checklist''
              ''soheil'' 3 ''done'' 0"

definition state_seed :: state where
  "state_seed = \<lparr>rows = [seed_1, seed_2, seed_3, seed_4], sqlite_sequence = 4, sseClients = []\<rparr>"

subsection \<open>Listing order, deliveries and reachable tables\<close>

text \<open>
  One row comes before another in the listing order; positions are compared as
  \<^verbatim>\<open>ORDER BY\<close> compares them.
\<close>

definition listed_before :: "task \<Rightarrow> task \<Rightarrow> bool" where
  "listed_before a b =
     (status a < status b \<or>
      (status a = status b \<and>
        (position_key (position a) < position_key (position b) \<or>
         (position_key (position a) = position_key (position b) \<and> task_id a \<le> task_id b))))"

text \<open>
  From one state to the next the subscribers are the same and the stream of each has
  received exactly the chunks \<open>cs\<close>, after what it held.
\<close>

definition delivered :: "chunk list \<Rightarrow> state \<Rightarrow> state \<Rightarrow> bool" where
  "delivered cs st st' =
     (map cid (sseClients st') = map cid (sseClients st) \<and>
      (\<forall>k < length (sseClients st).
         written (sseClients st' ! k) = written (sseClients st ! k) @ cs))"

definition state_sub :: state where
  "state_sub = get_events 3 state_A"

definition row_B :: task where
  "row_B = row_A\<lparr>task_id := 2, created_at := 9, updated_at := 9\<rparr>"

definition state_sub_B :: state where
  "state_sub_B =
     \<lparr>rows = [row_A, row_B], sqlite_sequence = 2,
      sseClients = [\<lparr>cid = 3, written = [Connected, Event ''task-created'' (PTask (Some row_B))]\<rparr>]\<rparr>"

definition state_sub_retitled :: state where
  "state_sub_retitled =
     \<lparr>rows = [row_A_retitled], sqlite_sequence = 1,
      sseClients = [\<lparr>cid = 3,
                     written = [Connected, Event ''task-updated'' (PTask (Some row_A_retitled))]\<rparr>]\<rparr>"

definition state_sub_done :: state where
  "state_sub_done =
     \<lparr>rows = [row_A_done], sqlite_sequence = 1,
      sseClients = [\<lparr>cid = 3,
                     written = [Connected, Event ''task-updated'' (PTask (Some row_A_done))]\<rparr>]\<rparr>"

definition state_sub_gone :: state where
  "state_sub_gone =
     \<lparr>rows = [], sqlite_sequence = 1,
      sseClients = [\<lparr>cid = 3, written = [Connected, Event ''task-deleted'' (PId 1)]\<rparr>]\<rparr>"

text \<open>
  What holds of the table in every state the service reaches by time \<open>clk\<close>: the ids are
  distinct and none exceeds the AUTOINCREMENT counter, and no row was created after it was
  last updated, nor updated after \<open>clk\<close>.
\<close>

definition wf_state :: "nat \<Rightarrow> state \<Rightarrow> bool" where
  "wf_state clk st =
     (distinct (map task_id (rows st)) \<and>
      list_all (\<lambda>t. task_id t \<le> sqlite_sequence st \<and> created_at t \<le> updated_at t \<and>
                    updated_at t \<le> clk) (rows st))"

text \<open>The requests of a run arrive at times that never decrease, from \<open>clk\<close> on.\<close>

fun times_ok :: "nat \<Rightarrow> (nat \<times> event) list \<Rightarrow> bool" where
  "times_ok clk [] = True"
| "times_ok clk ((now, e) # evs) = (clk \<le> now \<and> times_ok now evs)"

section \<open>Properties\<close>

subsection \<open>Storage lemmas\<close>

lemma find_map_id:
  assumes "\<And>t. task_id (g t) = task_id t"
  shows "find (\<lambda>t. task_id t = i) (map g xs) = map_option g (find (\<lambda>t. task_id t = i) xs)"
  by (induction xs) (simp_all add: assms)

lemma run_update_rows:
  "run_update f i st = Inr st' \<Longrightarrow>
     st' = st\<lparr>rows := map (\<lambda>t. if task_id t = i then f t else t) (rows st)\<rparr>"
  by (simp add: run_update_def Let_def split: if_splits)

lemma run_update_ok:
  "run_update f i st = Inr st' \<Longrightarrow> t \<in> set (rows st) \<Longrightarrow> task_id t = i \<Longrightarrow> row_ok (f t)"
  by (simp add: run_update_def Let_def list_all_iff split: if_splits)

lemma select_after_update:
  assumes "\<And>t. task_id (f t) = task_id t" and "run_update f i st = Inr st'"
  shows "select_by_id j st' = map_option (\<lambda>t. if task_id t = i then f t else t) (select_by_id j st)"
proof -
  have "\<And>t. task_id (if task_id t = i then f t else t) = task_id t"
    by (simp add: assms(1))
  then show ?thesis
    using run_update_rows [OF assms(2)] find_map_id [of "\<lambda>t. if task_id t = i then f t else t" j "rows st"]
    by (simp add: select_by_id_def)
qed

lemma select_by_id_id: "select_by_id i st = Some t \<Longrightarrow> task_id t = i"
  by (auto simp: select_by_id_def find_Some_iff)

lemma select_by_id_mem: "select_by_id i st = Some t \<Longrightarrow> t \<in> set (rows st)"
  by (auto simp: select_by_id_def find_Some_iff)

lemma select_by_id_None: "select_by_id i st = None \<longleftrightarrow> i \<notin> task_id ` set (rows st)"
  by (auto simp: select_by_id_def find_None_iff)

lemma next_rowid_gt: "t \<in> set (rows st) \<Longrightarrow> task_id t < next_rowid st"
proof -
  have "t \<in> set xs \<Longrightarrow> task_id t \<le> foldr (\<lambda>t m. max (task_id t) m) xs s" for xs s
    by (induction xs) auto
  then show "t \<in> set (rows st) \<Longrightarrow> task_id t < next_rowid st"
    unfolding next_rowid_def by fastforce
qed

lemma next_rowid_seq: "sqlite_sequence st < next_rowid st"
proof -
  have "s \<le> foldr (\<lambda>t m. max (task_id t) m) xs s" for xs :: "task list" and s
    by (induction xs) auto
  then show ?thesis
    unfolding next_rowid_def by (simp add: add.commute add_strict_increasing)
qed

lemma find_append_new:
  assumes "\<forall>t\<in>set xs. task_id t \<noteq> task_id n"
  shows "find (\<lambda>t. task_id t = task_id n) (xs @ [n]) = Some n"
  using assms by (induction xs) auto

subsection \<open>What the driver binds\<close>

lemma bind_value_scalar: "scalar v \<Longrightarrow> bind_value v = Inr (to_sql v)"
  by (cases v) simp_all

lemma bind_args_scalar_cons:
  "scalar v \<Longrightarrow>
   bind_args seen (v # as) =
     (case bind_args seen as of Inl e \<Rightarrow> Inl e | Inr qs \<Rightarrow> Inr (to_sql v # qs))"
  by (cases v) (simp_all split: sum.splits)

lemma bind_args_scalars: "list_all scalar as \<Longrightarrow> bind_args seen as = Inr (map to_sql as)"
  by (induction as) (simp_all add: bind_args_scalar_cons)

lemma bind_args_append_scalars:
  "list_all scalar bs \<Longrightarrow>
   bind_args seen (as @ bs) =
     (case bind_args seen as of Inl e \<Rightarrow> Inl e | Inr ps \<Rightarrow> Inr (ps @ map to_sql bs))"
proof (induction seen as rule: bind_args.induct)
  case (1 seen)
  then show ?case by (simp add: bind_args_scalars)
next
  case (2 seen xs as)
  then show ?case by (simp split: sum.splits)
next
  case (3 seen m as)
  then show ?case by simp
qed (simp_all split: sum.splits)

lemma stmt_params_scalars:
  "list_all scalar as \<Longrightarrow> length as = n \<Longrightarrow> stmt_params n as = Inr (map to_sql as)"
  by (simp add: stmt_params_def bind_args_scalars)

lemma stmt_params_length: "stmt_params n as = Inr ps \<Longrightarrow> length ps = n"
  by (auto simp: stmt_params_def split: sum.splits if_splits)

lemma stmt_params_tail:
  assumes "stmt_params n (as @ bs) = Inr ps" and "list_all scalar bs"
  shows "\<exists>pre. ps = pre @ map to_sql bs \<and> length pre + length bs = n"
  using assms
  by (auto simp: stmt_params_def bind_args_append_scalars split: sum.splits if_splits)

lemma stmt_params_head:
  assumes "stmt_params n (v # as) = Inr ps" and "scalar v"
  shows "\<exists>qs. ps = to_sql v # qs"
  using assms
  by (auto simp: stmt_params_def bind_args_scalar_cons split: sum.splits if_splits)

subsection \<open>What each handler returns\<close>

lemma includes_JStr: "includes_str xs x \<Longrightarrow> \<exists>s. x = JStr s \<and> s \<in> set xs"
  by (cases x) simp_all

lemma includes_owners_truthy: "includes_str owners x \<Longrightarrow> truthy x"
  by (cases x) (auto simp: owners_def)

lemma includes_statuses_truthy: "includes_str statuses x \<Longrightarrow> truthy x"
  by (cases x) (auto simp: statuses_def)

lemma insert_task_InrE:
  assumes "insert_task cv now ps st = Inr (rid, st1)"
  obtains ti de ow pr sta t where
    "ps = [ti, de, ow, pr, sta]"
    "text_col cv ti = Some (title t)" "text_col cv ow = Some (owner t)"
    "description t = text_col cv de" "priority t = int_col cv pr" "status t = text_col cv sta"
    "position t = SInt 0" "task_id t = next_rowid st" "created_at t = now" "updated_at t = now"
    "row_ok t" "rid = next_rowid st"
    "st1 = st\<lparr>rows := rows st @ [t], sqlite_sequence := next_rowid st\<rparr>"
proof -
  from assms obtain ti de ow pr sta where ps: "ps = [ti, de, ow, pr, sta]"
    by (auto simp: insert_task_def split: list.splits)
  from assms obtain a c where ac: "text_col cv ti = Some a" "text_col cv ow = Some c"
    by (auto simp: insert_task_def ps split: option.splits)
  define t where "t = \<lparr>task_id = next_rowid st, title = a, description = text_col cv de,
                         owner = c, priority = int_col cv pr, status = text_col cv sta,
                         position = SInt 0, created_at = now, updated_at = now\<rparr>"
  have r: "row_ok t \<and> rid = next_rowid st \<and>
           st1 = st\<lparr>rows := rows st @ [t], sqlite_sequence := next_rowid st\<rparr>"
    using assms by (auto simp: insert_task_def ps ac Let_def t_def split: if_splits)
  show thesis
    by (rule that [of ti de ow pr sta t]) (use ps ac r in \<open>simp_all add: t_def\<close>)
qed

lemma post_task_invalid:
  assumes "\<not> post_valid b"
  shows "\<exists>m. post_task cv now b st = (Inl (ValidationError m), st) \<and> m \<noteq> ''Failed to create task''"
  using assms includes_owners_truthy [of "b_owner b"]
  by (auto simp: post_task_def post_valid_def)

lemma post_task_valid:
  assumes "post_valid b"
  shows "post_task cv now b st =
           (case stmt_params 5 (post_args b) of
              Inl err \<Rightarrow> (Inl (ValidationError ''Failed to create task''), st)
            | Inr ps \<Rightarrow>
                (case insert_task cv now ps st of
                   Inl err \<Rightarrow> (Inl (ValidationError ''Failed to create task''), st)
                 | Inr (rid, st1) \<Rightarrow>
                     (Inr (Created (select_by_id rid st1)),
                      broadcast ''task-created'' (PTask (select_by_id rid st1)) st1)))"
proof -
  have v: "truthy (b_title b)" "truthy (b_owner b)" "includes_str owners (b_owner b)"
       "\<not> (truthy (b_status b) \<and> \<not> includes_str statuses (b_status b))"
    using assms includes_owners_truthy by (auto simp: post_valid_def)
  show ?thesis
    unfolding post_task_def using v
    by (simp add: post_args_def Let_def split: sum.splits prod.splits)
qed

lemma post_task_Inl: "post_task cv now b st = (Inl e, st') \<Longrightarrow> st' = st"
proof (cases "post_valid b")
  case True
  then show "post_task cv now b st = (Inl e, st') \<Longrightarrow> st' = st"
    by (auto simp: post_task_valid split: sum.splits prod.splits)
next
  case False
  then obtain m where "post_task cv now b st = (Inl (ValidationError m), st)"
    using post_task_invalid by blast
  then show "post_task cv now b st = (Inl e, st') \<Longrightarrow> st' = st"
    by simp
qed

lemma post_task_InrE:
  assumes "post_task cv now b st = (Inr r, st')"
  obtains ti de ow pr sta t where
    "post_valid b"
    "stmt_params 5 (post_args b) = Inr [ti, de, ow, pr, sta]"
    "text_col cv ti = Some (title t)" "text_col cv ow = Some (owner t)"
    "description t = text_col cv de" "priority t = int_col cv pr" "status t = text_col cv sta"
    "position t = SInt 0" "task_id t = next_rowid st" "created_at t = now" "updated_at t = now"
    "row_ok t"
    "r = Created (Some t)"
    "st' = broadcast ''task-created'' (PTask (Some t))
             (st\<lparr>rows := rows st @ [t], sqlite_sequence := next_rowid st\<rparr>)"
    "select_by_id (task_id t) st' = Some t"
proof -
  have v: "post_valid b"
  proof (rule ccontr)
    assume "\<not> post_valid b"
    then obtain m where "post_task cv now b st = (Inl (ValidationError m), st)"
      using post_task_invalid by blast
    with assms show False by simp
  qed
  from assms obtain ps rid st1 where
    p: "stmt_params 5 (post_args b) = Inr ps"
    and i: "insert_task cv now ps st = Inr (rid, st1)"
    and r: "r = Created (select_by_id rid st1)"
           "st' = broadcast ''task-created'' (PTask (select_by_id rid st1)) st1"
    by (auto simp: post_task_valid [OF v] split: sum.splits prod.splits)
  from i obtain ti de ow pr sta t where
    t: "ps = [ti, de, ow, pr, sta]"
      "text_col cv ti = Some (title t)" "text_col cv ow = Some (owner t)"
      "description t = text_col cv de" "priority t = int_col cv pr" "status t = text_col cv sta"
      "position t = SInt 0" "task_id t = next_rowid st" "created_at t = now" "updated_at t = now"
      "row_ok t" "rid = next_rowid st"
      "st1 = st\<lparr>rows := rows st @ [t], sqlite_sequence := next_rowid st\<rparr>"
    by (rule insert_task_InrE)
  have "\<forall>u\<in>set (rows st). task_id u \<noteq> task_id t"
    using next_rowid_gt [of _ st] t(8) by fastforce
  then have "find (\<lambda>u. task_id u = task_id t) (rows st @ [t]) = Some t"
    by (rule find_append_new)
  then have s: "select_by_id rid st1 = Some t"
    by (simp add: select_by_id_def t(8,12,13))
  have s': "select_by_id (task_id t) st' = Some t"
    using s by (simp add: r(2) select_by_id_def broadcast_def t(8,12))
  show thesis
    by (rule that [of ti de ow pr sta t])
       (use v p t r s s' in \<open>simp_all\<close>)
qed

lemma put_task_found:
  assumes "put_task cv now i b st = (Inr r, st')"
  shows "\<exists>old. select_by_id i st = Some old"
  using assms by (cases "select_by_id i st") (simp_all add: put_task_def)

lemma patch_move_found:
  assumes "patch_move cv now i b st = (Inr r, st')"
  shows "\<exists>old. select_by_id i st = Some old"
  using assms by (cases "select_by_id i st") (simp_all add: patch_move_def)

lemma merge_row_keeps [simp]:
  "task_id (merge_row cv now ti de ow pr sta po t) = task_id t"
  "created_at (merge_row cv now ti de ow pr sta po t) = created_at t"
  "updated_at (merge_row cv now ti de ow pr sta po t) = now"
  by (simp_all add: merge_row_def)

lemma move_assign_keeps [simp]:
  "task_id (move_assign cv now sta po t) = task_id t"
  "created_at (move_assign cv now sta po t) = created_at t"
  "updated_at (move_assign cv now sta po t) = now"
  by (simp_all add: move_assign_def)

lemma put_task_InrE:
  assumes "select_by_id i st = Some old" and "put_task cv now i b st = (Inr r, st')"
  obtains ti de ow pr sta po st1 where
    "stmt_params 6 (put_args b) = Inr [ti, de, ow, pr, sta, po]"
    "run_update (merge_row cv now ti de ow pr sta po) i st = Inr st1"
    "r = Updated (Some (merge_row cv now ti de ow pr sta po old))"
    "st' = broadcast ''task-updated'' (PTask (Some (merge_row cv now ti de ow pr sta po old))) st1"
    "select_by_id i st' = Some (merge_row cv now ti de ow pr sta po old)"
    "row_ok (merge_row cv now ti de ow pr sta po old)"
proof -
  from assms obtain ps st1 where
    p: "stmt_params 6 (put_args b) = Inr ps"
    and u: "update_task cv now ps i st = Inr st1"
    and r: "r = Updated (select_by_id i st1)"
           "st' = broadcast ''task-updated'' (PTask (select_by_id i st1)) st1"
    by (auto simp: put_task_def put_args_def Let_def split: if_splits sum.splits)
  from u obtain ti de ow pr sta po where ps: "ps = [ti, de, ow, pr, sta, po]"
    by (auto simp: update_task_def split: list.splits)
  let ?f = "merge_row cv now ti de ow pr sta po"
  have ru: "run_update ?f i st = Inr st1"
    using u by (simp add: update_task_def ps)
  have s: "select_by_id i st1 = Some (?f old)"
    using select_after_update [OF _ ru, of i] assms(1) select_by_id_id [OF assms(1)]
    by simp
  have ok: "row_ok (?f old)"
    by (rule run_update_ok [OF ru select_by_id_mem [OF assms(1)] select_by_id_id [OF assms(1)]])
  show thesis
    by (rule that [of ti de ow pr sta po st1])
       (use p ps ru r s ok in \<open>simp_all add: select_by_id_def broadcast_def\<close>)
qed

lemma patch_move_InrE:
  assumes "select_by_id i st = Some old" and "patch_move cv now i b st = (Inr r, st')"
  obtains s po st1 where
    "b_status b = JStr s" "s \<in> set statuses"
    "stmt_params 2 (move_args b) = Inr [SText s, po]"
    "run_update (move_assign cv now (SText s) po) i st = Inr st1"
    "r = Updated (Some (move_assign cv now (SText s) po old))"
    "st' = broadcast ''task-updated'' (PTask (Some (move_assign cv now (SText s) po old))) st1"
    "select_by_id i st' = Some (move_assign cv now (SText s) po old)"
proof -
  from assms obtain ps st1 where
    inc: "includes_str statuses (b_status b)"
    and p: "stmt_params 2 (move_args b) = Inr ps"
    and u: "update_move cv now ps i st = Inr st1"
    and r: "r = Updated (select_by_id i st1)"
           "st' = broadcast ''task-updated'' (PTask (select_by_id i st1)) st1"
    by (auto simp: patch_move_def move_args_def Let_def split: if_splits sum.splits)
  from inc obtain s where s: "b_status b = JStr s" "s \<in> set statuses"
    using includes_JStr by blast
  from u obtain sta po where ps: "ps = [sta, po]"
    by (auto simp: update_move_def split: list.splits)
  have "\<exists>qs. ps = to_sql (JStr s) # qs"
    using p by (intro stmt_params_head [of 2 _ "[js_or (b_position b) (JNum (Finite 0))]"])
               (simp_all add: move_args_def s(1))
  then have sta: "sta = SText s"
    by (simp add: ps)
  let ?f = "move_assign cv now (SText s) po"
  have ru: "run_update ?f i st = Inr st1"
    using u by (simp add: update_move_def ps sta)
  have sel: "select_by_id i st1 = Some (?f old)"
    using select_after_update [OF _ ru, of i] assms(1) select_by_id_id [OF assms(1)]
    by simp
  show thesis
    by (rule that [of s po st1])
       (use s p ps sta ru r sel in \<open>simp_all add: select_by_id_def broadcast_def\<close>)
qed

lemma put_task_Inl: "put_task cv now i b st = (Inl e, st') \<Longrightarrow> st' = st"
  by (auto simp: put_task_def Let_def split: option.splits if_splits sum.splits)

lemma patch_move_Inl: "patch_move cv now i b st = (Inl e, st') \<Longrightarrow> st' = st"
  by (auto simp: patch_move_def Let_def split: option.splits if_splits sum.splits)

lemma delete_task_Inl: "delete_task i st = (Inl e, st') \<Longrightarrow> st' = st"
  by (auto simp: delete_task_def split: option.splits)

lemma delete_task_Inr:
  assumes "delete_task i st = (Inr r, st')"
  shows "r = NoContent \<and> st' = broadcast ''task-deleted'' (PId i) (delete_row i st) \<and>
         (\<exists>old. select_by_id i st = Some old)"
  using assms by (cases "select_by_id i st") (simp_all add: delete_task_def)

lemma delete_task_absent:
  "select_by_id i s = None \<Longrightarrow> delete_task i s = (Inl (NotFoundError ''Task not found''), s)"
  by (simp add: delete_task_def)

lemma stmt_params_flat:
  assumes "stmt_params n as = Inr ps" and "list_all (\<lambda>v. \<not> container v) as"
  shows "list_all scalar as \<and> ps = map to_sql as"
proof -
  have "bind_args seen as = Inr qs \<Longrightarrow> list_all (\<lambda>v. \<not> container v) as \<Longrightarrow>
          list_all scalar as \<and> qs = map to_sql as" for seen qs
  proof (induction as arbitrary: qs)
    case Nil
    then show ?case by simp
  next
    case (Cons v as)
    then show ?case
      by (cases v) (auto split: sum.splits)
  qed
  then show ?thesis
    using assms by (auto simp: stmt_params_def split: sum.splits if_splits)
qed

lemma scalar_js_or: "x \<noteq> JBool True \<Longrightarrow> \<not> container x \<Longrightarrow> scalar d \<Longrightarrow> scalar (js_or x d)"
  by (cases x) (auto simp: js_or_def)

lemma container_js_or: "\<not> container x \<Longrightarrow> \<not> container d \<Longrightarrow> \<not> container (js_or x d)"
  by (simp add: js_or_def)

lemma status_arg:
  assumes "post_valid b"
  shows "\<exists>s. js_or (b_status b) (JStr ''backlog'') = JStr s \<and> s \<in> set statuses"
proof (cases "truthy (b_status b)")
  case True
  then show ?thesis
    using assms includes_JStr [of statuses "b_status b"] by (auto simp: post_valid_def js_or_def)
next
  case False
  then show ?thesis by (simp add: js_or_def statuses_def)
qed

lemma owner_arg:
  assumes "post_valid b"
  shows "\<exists>s. b_owner b = JStr s \<and> s \<in> set owners"
  using assms includes_JStr [of owners "b_owner b"] by (simp add: post_valid_def)

text \<open>A create that passes the checks with plain values inserts the row \<open>new_row\<close>.\<close>

lemma post_task_plain:
  assumes v: "post_valid b" and p: "plain_values b"
  shows "post_task cv now b st =
           (Inr (Created (Some (new_row cv now b st))),
            broadcast ''task-created'' (PTask (Some (new_row cv now b st)))
              (st\<lparr>rows := rows st @ [new_row cv now b st], sqlite_sequence := next_rowid st\<rparr>))"
proof -
  obtain ow where ow: "b_owner b = JStr ow" "ow \<in> set owners"
    using owner_arg [OF v] by blast
  obtain sa where sa: "js_or (b_status b) (JStr ''backlog'') = JStr sa" "sa \<in> set statuses"
    using status_arg [OF v] by blast
  have ti: "truthy (b_title b)" "scalar (b_title b)"
    using v p by (cases "b_title b"; simp add: post_valid_def plain_values_def)+
  have sc: "list_all scalar (post_args b)"
    using ti(2) p ow(1) sa(1) by (simp add: post_args_def plain_values_def scalar_js_or)
  have ps: "stmt_params 5 (post_args b) = Inr (map to_sql (post_args b))"
    by (rule stmt_params_scalars [OF sc]) (simp add: post_args_def)
  have tt: "\<exists>x. text_col cv (to_sql (b_title b)) = Some x"
    using ti by (cases "b_title b") simp_all
  then obtain x where x: "text_col cv (to_sql (b_title b)) = Some x"
    by blast
  have ok: "row_ok (new_row cv now b st)"
    using ow sa by (simp add: row_ok_def new_row_def check_owner_def)
  have ins: "insert_task cv now (map to_sql (post_args b)) st =
               Inr (next_rowid st,
                    st\<lparr>rows := rows st @ [new_row cv now b st], sqlite_sequence := next_rowid st\<rparr>)"
    using ok x ow
    by (simp add: insert_task_def post_args_def Let_def new_row_def)
  have "\<forall>t\<in>set (rows st). task_id t \<noteq> task_id (new_row cv now b st)"
    using next_rowid_gt [of _ st] by (fastforce simp: new_row_def)
  then have "find (\<lambda>t. task_id t = task_id (new_row cv now b st)) (rows st @ [new_row cv now b st])
               = Some (new_row cv now b st)"
    by (rule find_append_new)
  then have sel: "select_by_id (next_rowid st)
                (st\<lparr>rows := rows st @ [new_row cv now b st], sqlite_sequence := next_rowid st\<rparr>)
             = Some (new_row cv now b st)"
    by (simp add: select_by_id_def new_row_def)
  show ?thesis
    by (simp add: post_task_valid [OF v] ps ins sel)
qed

subsection \<open>The concrete states\<close>

lemma next_rowid_init: "next_rowid init_state = 1"
  by (simp add: next_rowid_def init_state_def)

lemma post_valid_body_A: "post_valid body_A"
  by (simp add: post_valid_def body_A_def empty_body_def owners_def)

lemma plain_body_A: "plain_values body_A"
  by (simp add: plain_values_def body_A_def empty_body_def)

lemma new_row_A: "new_row cv 5 body_A init_state = row_A"
  by (simp add: new_row_def next_rowid_init body_A_def empty_body_def row_A_def js_or_def)

lemma state_A_eq: "state_A = \<lparr>rows = [row_A], sqlite_sequence = 1, sseClients = []\<rparr>"
  unfolding state_A_def post_task_plain [OF post_valid_body_A plain_body_A] new_row_A
  by (simp add: broadcast_def init_state_def next_rowid_def)

lemma select_state_A: "select_by_id 1 state_A = Some row_A"
  by (simp add: state_A_eq select_by_id_def row_A_def)

subsection \<open>Unknown ids and rejected moves\<close>

lemma status_in_enum_iff:
  "status_in_enum b \<longleftrightarrow> truthy (b_status b) \<and> includes_str statuses (b_status b)"
  by (cases "b_status b") (auto simp: status_in_enum_def statuses_def)

text \<open>
  C10. In the update and the move handler the existence check comes before the checks of
  the body: when no row has the id, both answer \<open>NotFoundError\<close> (404) whatever the body
  holds, an invalid owner or status included, and the state is unchanged.
\<close>

theorem C10_not_found_first:
  assumes "select_by_id i st = None"
  shows "put_task cv now i b st = (Inl (NotFoundError ''Task not found''), st) \<and>
         patch_move cv now i b st = (Inl (NotFoundError ''Task not found''), st) \<and>
         http_status (fst (put_task cv now i b st)) = 404 \<and>
         http_status (fst (patch_move cv now i b st)) = 404"
  using assms by (simp add: put_task_def patch_move_def)

theorem C10_not_found_first_witness:
  "select_by_id 9999 state_A = None \<and>
   \<not> includes_str owners (b_owner body_bad) \<and> \<not> includes_str statuses (b_status body_bad) \<and>
   put_task plain_conv 9 9999 body_bad state_A = (Inl (NotFoundError ''Task not found''), state_A) \<and>
   patch_move plain_conv 9 9999 body_bad state_A
     = (Inl (NotFoundError ''Task not found''), state_A)"
proof -
  have h: "select_by_id 9999 state_A = None"
    by (simp add: state_A_eq select_by_id_def row_A_def)
  have "\<not> includes_str owners (b_owner body_bad) \<and> \<not> includes_str statuses (b_status body_bad)"
    by (simp add: body_bad_def empty_body_def owners_def statuses_def)
  then show ?thesis
    using h C10_not_found_first [OF h, of plain_conv 9 body_bad] by simp
qed

text \<open>
  C3. A move of an unknown id answers \<open>NotFoundError\<close> (404); a move of a known id whose
  status is missing, null, or not one of \<^verbatim>\<open>backlog\<close>, \<^verbatim>\<open>in_progress\<close>, \<^verbatim>\<open>done\<close> answers
  \<open>ValidationError\<close> (400); and whenever a move fails, the state (hence the stored row) is
  what it was.
\<close>

theorem C3_move_failures:
  "(select_by_id i st = None \<longrightarrow>
      patch_move cv now i b st = (Inl (NotFoundError ''Task not found''), st)) \<and>
   (select_by_id i st \<noteq> None \<and> \<not> status_in_enum b \<longrightarrow>
      patch_move cv now i b st = (Inl (ValidationError ''Valid status is required''), st)) \<and>
   (isl (fst (patch_move cv now i b st)) \<longrightarrow> snd (patch_move cv now i b st) = st)"
proof (intro conjI impI)
  assume "select_by_id i st = None"
  then show "patch_move cv now i b st = (Inl (NotFoundError ''Task not found''), st)"
    by (simp add: patch_move_def)
next
  assume "select_by_id i st \<noteq> None \<and> \<not> status_in_enum b"
  then show "patch_move cv now i b st = (Inl (ValidationError ''Valid status is required''), st)"
    by (auto simp: patch_move_def status_in_enum_iff)
next
  assume "isl (fst (patch_move cv now i b st))"
  then obtain e where "fst (patch_move cv now i b st) = Inl e"
    by (auto simp: isl_def)
  then have "patch_move cv now i b st = (Inl e, snd (patch_move cv now i b st))"
    by (metis prod.collapse)
  then show "snd (patch_move cv now i b st) = st"
    by (rule patch_move_Inl)
qed

theorem C3_move_failures_witness:
  "select_by_id 2 state_A = None \<and>
   patch_move plain_conv 9 2 body_done state_A
     = (Inl (NotFoundError ''Task not found''), state_A) \<and>
   select_by_id 1 state_A \<noteq> None \<and> \<not> status_in_enum empty_body \<and>
   patch_move plain_conv 9 1 empty_body state_A
     = (Inl (ValidationError ''Valid status is required''), state_A) \<and>
   \<not> status_in_enum body_bad \<and>
   isl (fst (patch_move plain_conv 9 1 body_bad state_A)) \<and>
   snd (patch_move plain_conv 9 1 body_bad state_A) = state_A"
proof -
  have a: "select_by_id 2 state_A = None"
    by (simp add: state_A_eq select_by_id_def row_A_def)
  have b: "select_by_id 1 state_A \<noteq> None"
    by (simp add: select_state_A)
  have c: "\<not> status_in_enum empty_body" "\<not> status_in_enum body_bad"
    by (simp_all add: status_in_enum_def empty_body_def body_bad_def)
  show ?thesis
    using a b c
      C3_move_failures [of 2 state_A plain_conv 9 body_done]
      C3_move_failures [of 1 state_A plain_conv 9 empty_body]
      C3_move_failures [of 1 state_A plain_conv 9 body_bad]
    by simp
qed

subsection \<open>Numbers\<close>

declare bit_length.simps [simp del]

lemma double_of_int_small: "\<bar>n\<bar> \<le> 2 ^ 53 \<Longrightarrow> double_of_int n = Finite (of_int n)"
  by (simp add: double_of_int_def)

lemma double_of_int_0: "double_of_int 0 = Finite 0"
  by (simp add: double_of_int_def)

lemma double_of_int_5: "double_of_int 5 = Finite 5"
  by (simp add: double_of_int_def)

lemma bit_length_big: "bit_length 9007199254740993 = 54"
  by (simp add: bit_length.simps)

lemma double_of_int_big: "double_of_int 9007199254740993 = Finite 9007199254740992"
proof -
  have "round_nearest_even (Suc 0) 9007199254740993 = 9007199254740992"
    by (simp add: round_nearest_even_def Let_def)
  then show ?thesis
    by (simp add: double_of_int_def bit_length_big Let_def)
qed

lemma int_col_int:
  assumes "\<bar>n\<bar> < 2 ^ 63"
  shows "int_col cv (SReal (Finite (of_int n))) = SInt n"
proof -
  have "\<bar>of_int n :: rat\<bar> = of_int \<bar>n\<bar>"
    by simp
  moreover have "(of_int \<bar>n\<bar> :: rat) < of_int (2 ^ 63)"
    using assms by (simp only: of_int_less_iff)
  ultimately have "\<bar>of_int n :: rat\<bar> < 2 ^ 63"
    by simp
  then show ?thesis
    by simp
qed

subsection \<open>Validation of a create\<close>

lemma create_rejects_iff: "create_rejects b \<longleftrightarrow> \<not> post_valid b"
proof -
  have ow: "includes_str owners (b_owner b) \<longleftrightarrow>
             (b_owner b = JStr ''oracle'' \<or> b_owner b = JStr ''soheil'')"
    by (cases "b_owner b") (auto simp: owners_def)
  have s: "(truthy (b_status b) \<and> \<not> includes_str statuses (b_status b)) \<longleftrightarrow>
           (truthy (b_status b) \<and> \<not> status_in_enum b)"
    using status_in_enum_iff by blast
  show ?thesis
    unfolding create_rejects_def post_valid_def ow using s by blast
qed

lemma post_true_title:
  "post_task cv now body_true_title st = (Inl (ValidationError ''Failed to create task''), st)"
proof -
  have v: "post_valid body_true_title"
    by (simp add: post_valid_def body_true_title_def body_A_def empty_body_def owners_def)
  have "stmt_params 5 (post_args body_true_title) = Inl DriverError"
    by (simp add: stmt_params_def post_args_def body_true_title_def)
  then show ?thesis
    by (simp add: post_task_valid [OF v])
qed

text \<open>
  C2, as stated, fails in both directions: an empty-string status is a supplied status
  outside the enumeration, yet the create is accepted and the row gets the default status;
  and a create whose title is \<^verbatim>\<open>true\<close> meets none of the three conditions, yet it fails
  with 400, because the statement raises and the handler catches it.
\<close>

theorem C2_counterexample:
  "spec_create_rejects body_empty_status \<and>
   post_task plain_conv 5 body_empty_status init_state =
     (Inr (Created (Some row_A)), \<lparr>rows = [row_A], sqlite_sequence = 1, sseClients = []\<rparr>) \<and>
   \<not> spec_create_rejects body_true_title \<and>
   post_task plain_conv 5 body_true_title init_state =
     (Inl (ValidationError ''Failed to create task''), init_state) \<and>
   http_status (Inl (ValidationError ''Failed to create task'')) = 400"
proof -
  have v: "post_valid body_empty_status"
    by (simp add: post_valid_def body_empty_status_def body_A_def empty_body_def owners_def)
  have p: "plain_values body_empty_status"
    by (simp add: plain_values_def body_empty_status_def body_A_def empty_body_def)
  have r: "new_row plain_conv 5 body_empty_status init_state = row_A"
    by (simp add: new_row_def next_rowid_init body_empty_status_def body_A_def empty_body_def
                  row_A_def js_or_def)
  have a: "spec_create_rejects body_empty_status"
    by (simp add: spec_create_rejects_def status_in_enum_def body_empty_status_def body_A_def
                  empty_body_def)
  have b: "\<not> spec_create_rejects body_true_title"
    by (simp add: spec_create_rejects_def status_in_enum_def body_true_title_def body_A_def
                  empty_body_def)
  have c: "post_task plain_conv 5 body_empty_status init_state =
     (Inr (Created (Some row_A)), \<lparr>rows = [row_A], sqlite_sequence = 1, sseClients = []\<rparr>)"
    unfolding post_task_plain [OF v p] r
    by (simp add: broadcast_def init_state_def next_rowid_def)
  show ?thesis
    using a b c by (simp add: post_true_title)
qed

text \<open>
  C2, amended. Every failing create answers 400 and leaves the state as it was. It fails
  with one of the three validation messages exactly when the title is falsy, or the owner
  is not one of the two values, or a truthy status outside the three values is supplied
  (the empty string is falsy and counts as no status). A create that passes these checks
  fails only with \<^verbatim>\<open>Failed to create task\<close>, and only when its title, description or
  priority is \<^verbatim>\<open>true\<close>, an array or an object; with plain values it appends exactly one
  row and returns it.
\<close>

theorem C2_create_validation:
  "((\<exists>m. fst (post_task cv now b st) = Inl (ValidationError m) \<and>
          m \<noteq> ''Failed to create task'') \<longleftrightarrow> create_rejects b) \<and>
   (isl (fst (post_task cv now b st)) \<longrightarrow>
      http_status (fst (post_task cv now b st)) = 400 \<and> snd (post_task cv now b st) = st) \<and>
   (\<not> create_rejects b \<and> isl (fst (post_task cv now b st)) \<longrightarrow>
      fst (post_task cv now b st) = Inl (ValidationError ''Failed to create task'') \<and>
      \<not> plain_values b) \<and>
   (\<not> create_rejects b \<and> plain_values b \<longrightarrow>
      fst (post_task cv now b st) = Inr (Created (Some (new_row cv now b st))) \<and>
      rows (snd (post_task cv now b st)) = rows st @ [new_row cv now b st])"
proof (cases "post_valid b")
  case False
  then obtain m where
    "post_task cv now b st = (Inl (ValidationError m), st)" "m \<noteq> ''Failed to create task''"
    using post_task_invalid by blast
  then show ?thesis
    using False by (simp add: create_rejects_iff)
next
  case True
  have plain: "plain_values b \<Longrightarrow>
      fst (post_task cv now b st) = Inr (Created (Some (new_row cv now b st))) \<and>
      rows (snd (post_task cv now b st)) = rows st @ [new_row cv now b st]"
    by (simp add: post_task_plain [OF True] broadcast_def)
  have fail: "fst (post_task cv now b st) = Inl (ValidationError ''Failed to create task'') \<and>
              snd (post_task cv now b st) = st"
    if "isl (fst (post_task cv now b st))"
    using that by (auto simp: post_task_valid [OF True] split: sum.splits prod.splits)
  have a: "\<not> (\<exists>m. fst (post_task cv now b st) = Inl (ValidationError m) \<and>
                  m \<noteq> ''Failed to create task'')"
    using fail by (auto simp: isl_def)
  have b: "isl (fst (post_task cv now b st)) \<longrightarrow>
      http_status (fst (post_task cv now b st)) = 400 \<and> snd (post_task cv now b st) = st"
    using fail by auto
  have c: "isl (fst (post_task cv now b st)) \<longrightarrow>
      fst (post_task cv now b st) = Inl (ValidationError ''Failed to create task'') \<and>
      \<not> plain_values b"
    using fail plain by auto
  show ?thesis
    using True a b c plain by (simp add: create_rejects_iff)
qed

theorem C2_create_validation_witness:
  "create_rejects body_bad \<and> isl (fst (post_task plain_conv 5 body_bad state_A)) \<and>
   http_status (fst (post_task plain_conv 5 body_bad state_A)) = 400 \<and>
   snd (post_task plain_conv 5 body_bad state_A) = state_A \<and>
   \<not> create_rejects body_empty_status \<and> plain_values body_empty_status \<and>
   fst (post_task plain_conv 5 body_empty_status init_state) = Inr (Created (Some row_A)) \<and>
   rows (snd (post_task plain_conv 5 body_empty_status init_state)) = [row_A] \<and>
   \<not> create_rejects body_true_title \<and> \<not> plain_values body_true_title \<and>
   fst (post_task plain_conv 5 body_true_title state_A)
     = Inl (ValidationError ''Failed to create task'') \<and>
   snd (post_task plain_conv 5 body_true_title state_A) = state_A"
proof -
  have a: "create_rejects body_bad"
    by (simp add: create_rejects_def body_bad_def empty_body_def)
  have b: "\<not> create_rejects body_empty_status" "plain_values body_empty_status"
    by (simp_all add: create_rejects_def plain_values_def body_empty_status_def body_A_def
                      empty_body_def)
  have c: "\<not> create_rejects body_true_title" "\<not> plain_values body_true_title"
    by (simp_all add: create_rejects_def plain_values_def body_true_title_def body_A_def
                      empty_body_def)
  have r: "new_row plain_conv 5 body_empty_status init_state = row_A"
    by (simp add: new_row_def next_rowid_init body_empty_status_def body_A_def empty_body_def
                  row_A_def js_or_def)
  have i: "rows init_state = []"
    by (simp add: init_state_def)
  have t: "isl (fst (post_task plain_conv 5 body_true_title state_A))"
    by (simp add: post_true_title)
  note x = C2_create_validation [of plain_conv 5 body_bad state_A]
  note y = C2_create_validation [of plain_conv 5 body_empty_status init_state]
  note z = C2_create_validation [of plain_conv 5 body_true_title state_A]
  have x1: "isl (fst (post_task plain_conv 5 body_bad state_A))"
    using conjunct1 [OF x] a by (auto simp: isl_def)
  have x2: "http_status (fst (post_task plain_conv 5 body_bad state_A)) = 400 \<and>
            snd (post_task plain_conv 5 body_bad state_A) = state_A"
    using conjunct1 [OF conjunct2 [OF x]] x1 by blast
  have y1: "fst (post_task plain_conv 5 body_empty_status init_state) = Inr (Created (Some row_A)) \<and>
            rows (snd (post_task plain_conv 5 body_empty_status init_state)) = [row_A]"
    using conjunct2 [OF conjunct2 [OF conjunct2 [OF y]]] b by (simp add: r i)
  have z1: "fst (post_task plain_conv 5 body_true_title state_A)
              = Inl (ValidationError ''Failed to create task'')"
    using conjunct1 [OF conjunct2 [OF conjunct2 [OF z]]] c(1) t by blast
  have z2: "snd (post_task plain_conv 5 body_true_title state_A) = state_A"
    using conjunct1 [OF conjunct2 [OF z]] t by blast
  show ?thesis
    using a b c x1 x2 y1 z1 z2 by blast
qed

subsection \<open>Defaults of a create\<close>

text \<open>
  C7, as stated, fails: a create that supplies the integer priority 0 stores priority 1,
  and one that supplies 9007199254740993 stores 9007199254740992, the double that the
  handler receives.
\<close>

theorem C7_counterexample:
  "b_priority body_zero_priority = JNum (double_of_int 0) \<and>
   fst (post_task plain_conv 5 body_zero_priority init_state) = Inr (Created (Some row_A)) \<and>
   priority row_A = SInt 1 \<and>
   b_priority body_big_priority = JNum (double_of_int 9007199254740993) \<and>
   fst (post_task plain_conv 5 body_big_priority init_state)
     = Inr (Created (Some (row_A\<lparr>priority := SInt 9007199254740992\<rparr>)))"
proof -
  have v: "post_valid body_zero_priority" "post_valid body_big_priority"
    by (simp_all add: post_valid_def body_zero_priority_def body_big_priority_def body_A_def
                      empty_body_def owners_def)
  have p: "plain_values body_zero_priority" "plain_values body_big_priority"
    by (simp_all add: plain_values_def body_zero_priority_def body_big_priority_def body_A_def
                      empty_body_def)
  have r: "new_row plain_conv 5 body_zero_priority init_state = row_A"
    by (simp add: new_row_def next_rowid_init body_zero_priority_def body_A_def empty_body_def
                  row_A_def js_or_def double_of_int_0)
  have r': "new_row plain_conv 5 body_big_priority init_state
              = row_A\<lparr>priority := SInt 9007199254740992\<rparr>"
    by (simp add: new_row_def next_rowid_init body_big_priority_def body_A_def empty_body_def
                  row_A_def js_or_def double_of_int_big)
  show ?thesis
    unfolding post_task_plain [OF v(1) p(1)] post_task_plain [OF v(2) p(2)] r r'
    by (simp add: body_zero_priority_def body_big_priority_def row_A_def)
qed

text \<open>
  C7, amended. Every accepted create whose title, description and priority are not arrays
  or objects returns the row it stored, in which the description is the empty string when
  omitted, the status is \<^verbatim>\<open>backlog\<close> when omitted, both timestamps are the time of the
  insert, the priority is 1 when omitted or supplied as 0, and any other supplied integer
  priority of magnitude at most \<open>2 ^ 53\<close> is stored as given.
\<close>

theorem C7_create_defaults:
  assumes "fst (post_task cv now b st) = Inr r" and "no_containers b"
  shows "\<exists>t. r = Created (Some t) \<and>
           select_by_id (task_id t) (snd (post_task cv now b st)) = Some t \<and>
           (b_description b = Undefined \<longrightarrow> description t = Some []) \<and>
           (b_status b = Undefined \<longrightarrow> status t = Some ''backlog'') \<and>
           created_at t = now \<and> updated_at t = created_at t \<and>
           (b_priority b = Undefined \<or> b_priority b = JNum (double_of_int 0)
              \<longrightarrow> priority t = SInt 1) \<and>
           (\<forall>n. n \<noteq> 0 \<and> \<bar>n\<bar> \<le> 2 ^ 53 \<and> b_priority b = JNum (double_of_int n)
              \<longrightarrow> priority t = SInt n)"
proof -
  have eq: "post_task cv now b st = (Inr r, snd (post_task cv now b st))"
    using assms(1) by (metis prod.collapse)
  from eq obtain ti de ow pr sta t where
    v: "post_valid b"
    and ps: "stmt_params 5 (post_args b) = Inr [ti, de, ow, pr, sta]"
    and t: "description t = text_col cv de" "priority t = int_col cv pr"
           "status t = text_col cv sta" "created_at t = now" "updated_at t = now"
    and r: "r = Created (Some t)"
           "select_by_id (task_id t) (snd (post_task cv now b st)) = Some t"
    by (rule post_task_InrE)
  obtain o' where o': "b_owner b = JStr o'"
    using owner_arg [OF v] by blast
  obtain s' where s': "js_or (b_status b) (JStr ''backlog'') = JStr s'"
    using status_arg [OF v] by blast
  have "list_all (\<lambda>v. \<not> container v) (post_args b)"
    using assms(2) o' s' by (simp add: post_args_def no_containers_def container_js_or)
  then have "[ti, de, ow, pr, sta] = map to_sql (post_args b)"
    using stmt_params_flat [OF ps] by blast
  then have de: "de = to_sql (js_or (b_description b) (JStr []))"
    and pr: "pr = to_sql (js_or (b_priority b) (JNum (Finite 1)))"
    and sta: "sta = to_sql (js_or (b_status b) (JStr ''backlog''))"
    by (simp_all add: post_args_def)
  have one: "int_col cv (SReal (Finite 1)) = SInt 1"
    using int_col_int [of 1 cv] by simp
  have a: "b_description b = Undefined \<longrightarrow> description t = Some []"
    by (simp add: t(1) de js_or_def)
  have b: "b_status b = Undefined \<longrightarrow> status t = Some ''backlog''"
    by (simp add: t(3) sta js_or_def)
  have c: "b_priority b = Undefined \<or> b_priority b = JNum (double_of_int 0)
             \<longrightarrow> priority t = SInt 1"
    using one by (auto simp: t(2) pr js_or_def double_of_int_0)
  have d: "priority t = SInt n"
    if "n \<noteq> 0" "\<bar>n\<bar> \<le> 2 ^ 53" "b_priority b = JNum (double_of_int n)" for n
  proof -
    have "\<bar>n\<bar> < 2 ^ 63"
      using that(2) by simp
    then have "int_col cv (SReal (Finite (of_int n))) = SInt n"
      by (rule int_col_int)
    then show ?thesis
      using that by (simp add: t(2) pr js_or_def double_of_int_small)
  qed
  show ?thesis
    using r a b c d t(4,5) by blast
qed

theorem C7_create_defaults_witness:
  "fst (post_task plain_conv 5 body_A init_state) = Inr (Created (Some row_A)) \<and>
   no_containers body_A \<and> no_containers body_priority_5 \<and>
   b_description body_A = Undefined \<and> description row_A = Some [] \<and>
   b_status body_A = Undefined \<and> status row_A = Some ''backlog'' \<and>
   b_priority body_A = Undefined \<and> priority row_A = SInt 1 \<and>
   created_at row_A = 5 \<and> updated_at row_A = created_at row_A \<and>
   fst (post_task plain_conv 5 body_priority_5 init_state)
     = Inr (Created (Some (row_A\<lparr>priority := SInt 5\<rparr>))) \<and>
   b_priority body_priority_5 = JNum (double_of_int 5)"
proof -
  have v: "post_valid body_priority_5"
    by (simp add: post_valid_def body_priority_5_def body_A_def empty_body_def owners_def)
  have p: "plain_values body_priority_5"
    by (simp add: plain_values_def body_priority_5_def body_A_def empty_body_def)
  have n: "no_containers body_A" "no_containers body_priority_5"
    by (simp_all add: no_containers_def body_priority_5_def body_A_def empty_body_def)
  have r: "new_row plain_conv 5 body_priority_5 init_state = row_A\<lparr>priority := SInt 5\<rparr>"
    by (simp add: new_row_def next_rowid_init body_priority_5_def body_A_def empty_body_def
                  row_A_def js_or_def double_of_int_5)
  have a: "fst (post_task plain_conv 5 body_A init_state) = Inr (Created (Some row_A))"
    by (simp add: post_task_plain [OF post_valid_body_A plain_body_A] new_row_A)
  have b: "fst (post_task plain_conv 5 body_priority_5 init_state)
             = Inr (Created (Some (row_A\<lparr>priority := SInt 5\<rparr>)))"
    by (simp add: post_task_plain [OF v p] r)
  have c: "b_description body_A = Undefined \<and> b_status body_A = Undefined \<and>
           b_priority body_A = Undefined \<and> b_priority body_priority_5 = JNum (double_of_int 5)"
    by (simp add: body_priority_5_def body_A_def empty_body_def)
  show ?thesis
    using a b c n C7_create_defaults [OF a n(1)] C7_create_defaults [OF b n(2)]
    by (simp add: row_A_def)
qed

subsection \<open>The merge of an update\<close>

lemma put_task_scalar:
  assumes "select_by_id i st = Some old"
    and "\<not> (truthy (b_owner b) \<and> \<not> includes_str owners (b_owner b))"
    and "\<not> (truthy (b_status b) \<and> \<not> includes_str statuses (b_status b))"
    and "list_all scalar (put_args b)"
  shows "put_task cv now i b st =
           (case run_update (put_merge cv now b) i st of
              Inl e \<Rightarrow> (Inl Uncaught, st)
            | Inr st1 \<Rightarrow>
                (Inr (Updated (select_by_id i st1)),
                 broadcast ''task-updated'' (PTask (select_by_id i st1)) st1))"
proof -
  have "stmt_params 6 (put_args b) = Inr (map to_sql (put_args b))"
    by (rule stmt_params_scalars [OF assms(4)]) (simp add: put_args_def)
  then have p: "stmt_params 6
                 [nullish_null (b_title b), nullish_null (b_description b),
                  nullish_null (b_owner b), nullish_null (b_priority b),
                  nullish_null (b_status b), nullish_null (b_position b)]
                = Inr [to_sql (nullish_null (b_title b)), to_sql (nullish_null (b_description b)),
                       to_sql (nullish_null (b_owner b)), to_sql (nullish_null (b_priority b)),
                       to_sql (nullish_null (b_status b)), to_sql (nullish_null (b_position b))]"
    by (simp add: put_args_def)
  show ?thesis
    unfolding put_task_def using assms(2,3)
    by (simp add: assms(1) p update_task_def put_merge_def Let_def split: sum.splits)
qed

lemma patch_move_scalar:
  assumes "select_by_id i st = Some old"
    and "status_in_enum b" and "scalar (js_or (b_position b) (JNum (Finite 0)))"
  shows "patch_move cv now i b st =
           (case run_update (move_row cv now b) i st of
              Inl e \<Rightarrow> (Inl Uncaught, st)
            | Inr st1 \<Rightarrow>
                (Inr (Updated (select_by_id i st1)),
                 broadcast ''task-updated'' (PTask (select_by_id i st1)) st1))"
proof -
  have v: "truthy (b_status b)" "includes_str statuses (b_status b)"
    using assms(2) by (simp_all add: status_in_enum_iff)
  have "scalar (b_status b)"
    using includes_JStr [OF v(2)] by auto
  then have "list_all scalar (move_args b)"
    using assms(3) by (simp add: move_args_def)
  then have "stmt_params 2 (move_args b) = Inr (map to_sql (move_args b))"
    by (rule stmt_params_scalars) (simp add: move_args_def)
  then have p: "stmt_params 2 [b_status b, js_or (b_position b) (JNum (Finite 0))]
                = Inr [to_sql (b_status b), to_sql (js_or (b_position b) (JNum (Finite 0)))]"
    by (simp add: move_args_def)
  show ?thesis
    unfolding patch_move_def using v
    by (simp add: assms(1) p update_move_def move_row_def Let_def split: sum.splits)
qed



subsection \<open>The listing\<close>

lemma position_key_int: "position_key (SInt m) < position_key (SInt n) \<longleftrightarrow> m < n"
  by (simp add: less_prod_def)

lemma position_key_null: "position_key SNull < position_key (SInt n)"
  by (simp add: less_prod_def)

lemma triple_le:
  fixes s s' :: "'a :: linorder" and k k' :: "'b :: linorder" and i i' :: "'c :: linorder"
  shows "(s, k, i) \<le> (s', k', i') \<longleftrightarrow>
           s < s' \<or> (s = s' \<and> (k < k' \<or> (k = k' \<and> i \<le> i')))"
  by (auto simp: less_eq_prod_def)

lemma order_key_le: "order_key a \<le> order_key b \<longleftrightarrow> listed_before a b"
  unfolding order_key_def listed_before_def by (rule triple_le)

lemma get_tasks_sorted: "sorted (map order_key (get_tasks q st))"
  by (cases q) (simp_all add: select_all_def)

lemma done_before_in_progress: "(Some ''done'' :: string option) < Some ''in_progress''"
  by simp

text \<open>
  C5. The listing is in ascending order of (status, position, id), the status compared as a
  plain string; without a filter it holds every row of the table; and a row whose status
  is \<^verbatim>\<open>done\<close> always comes before one whose status is \<^verbatim>\<open>in_progress\<close>.
\<close>

theorem C5_list_order:
  "(\<forall>m n. m < n \<and> n < length (get_tasks q st) \<longrightarrow>
       listed_before (get_tasks q st ! m) (get_tasks q st ! n)) \<and>
   mset (get_tasks QAbsent st) = mset (rows st) \<and>
   (\<forall>m n. m < length (get_tasks q st) \<and> n < length (get_tasks q st) \<and>
       status (get_tasks q st ! m) = Some ''done'' \<and>
       status (get_tasks q st ! n) = Some ''in_progress'' \<longrightarrow> m < n)"
proof -
  let ?xs = "get_tasks q st"
  have mono: "listed_before (?xs ! m) (?xs ! n)" if "m \<le> n" "n < length ?xs" for m n
  proof -
    have "map order_key ?xs ! m \<le> map order_key ?xs ! n"
      using sorted_nth_mono [OF get_tasks_sorted, of m n q st] that by simp
    then show ?thesis
      using that by (simp add: order_key_le)
  qed
  have a: "\<forall>m n. m < n \<and> n < length ?xs \<longrightarrow> listed_before (?xs ! m) (?xs ! n)"
    using mono by simp
  have b: "mset (get_tasks QAbsent st) = mset (rows st)"
    by (simp add: select_all_def)
  have c: "m < n" if "m < length ?xs" "n < length ?xs"
      "status (?xs ! m) = Some ''done''" "status (?xs ! n) = Some ''in_progress''" for m n
  proof (rule ccontr)
    assume "\<not> m < n"
    then have "listed_before (?xs ! n) (?xs ! m)"
      using mono [of n m] that by simp
    then show False
      using that(3,4) by (simp add: listed_before_def)
  qed
  show ?thesis
    using a b c by blast
qed

lemma select_all_seed: "select_all None state_seed = [seed_2, seed_3, seed_4, seed_1]"
  by (simp add: select_all_def state_seed_def order_key_def seed_1_def seed_2_def seed_3_def
                seed_4_def seed_row_def)

theorem C5_list_order_witness:
  "get_tasks QAbsent state_seed = [seed_2, seed_3, seed_4, seed_1] \<and>
   status seed_4 = Some ''done'' \<and> status seed_1 = Some ''in_progress'' \<and>
   listed_before seed_2 seed_3 \<and> listed_before seed_3 seed_4 \<and> listed_before seed_4 seed_1 \<and>
   mset (get_tasks QAbsent state_seed) = mset (rows state_seed)"
proof -
  have s: "status seed_4 = Some ''done'' \<and> status seed_1 = Some ''in_progress''"
    by (simp add: seed_1_def seed_4_def seed_row_def)
  have g: "get_tasks QAbsent state_seed = [seed_2, seed_3, seed_4, seed_1]"
    by (simp add: select_all_seed)
  note t = C5_list_order [of QAbsent state_seed]
  note t1 = conjunct1 [OF t]
  have o1: "listed_before seed_2 seed_3"
    using t1 [rule_format, of 0 1] unfolding g by simp
  have o2: "listed_before seed_3 seed_4"
    using t1 [rule_format, of 1 2] unfolding g by simp
  have o3: "listed_before seed_4 seed_1"
    using t1 [rule_format, of 2 3] unfolding g by simp
  have m: "mset (get_tasks QAbsent state_seed) = mset (rows state_seed)"
    by (rule conjunct1 [OF conjunct2 [OF t]])
  show ?thesis
    using s g o1 o2 o3 m by blast
qed

text \<open>
  C6, as stated, fails: with the empty string supplied as filter value the listing is
  not restricted; it returns a row whose owner is not the filter value.
\<close>

theorem C6_counterexample:
  "get_tasks (QString []) state_A = [row_A] \<and> owner row_A \<noteq> []"
  by (simp add: select_all_def state_A_eq row_A_def)

text \<open>
  C6, amended. With a non-empty string as filter value the listing holds exactly the rows
  whose owner equals it; with no filter, the empty string, or a value that is not a string
  it holds every row. The listing never fails: whatever the filter, the answer is an array
  (200) and the state is unchanged; and a non-empty value outside the two owners yields
  the empty array when every stored owner satisfies the table's CHECK.
\<close>

theorem C6_owner_filter:
  "(ow \<noteq> [] \<longrightarrow> mset (get_tasks (QString ow) st) = mset (filter (\<lambda>t. owner t = ow) (rows st))) \<and>
   (q = QAbsent \<or> q = QString [] \<or> q = QOther \<longrightarrow> mset (get_tasks q st) = mset (rows st)) \<and>
   handle cv now (GetTasks q) st = (Inr (Tasks (get_tasks q st)), st) \<and>
   http_status (fst (handle cv now (GetTasks q) st)) = 200 \<and>
   (ow \<noteq> [] \<and> ow \<notin> set owners \<and> (\<forall>t\<in>set (rows st). check_owner (owner t)) \<longrightarrow>
      get_tasks (QString ow) st = [])"
proof -
  have e: "filter (\<lambda>t. owner t = ow) (rows st) = []"
    if "ow \<notin> set owners" "\<forall>t\<in>set (rows st). check_owner (owner t)"
    using that by (auto simp: filter_empty_conv check_owner_def)
  show ?thesis
    using e by (auto simp: select_all_def)
qed

theorem C6_owner_filter_witness:
  "get_tasks (QString ''oracle'') state_seed = [seed_3, seed_1] \<and>
   mset (get_tasks (QString ''oracle'') state_seed)
     = mset (filter (\<lambda>t. owner t = ''oracle'') (rows state_seed)) \<and>
   mset (get_tasks QOther state_seed) = mset (rows state_seed) \<and>
   ''nobody'' \<notin> set owners \<and> list_all (\<lambda>t. check_owner (owner t)) (rows state_seed) \<and>
   get_tasks (QString ''nobody'') state_seed = [] \<and>
   handle plain_conv 9 (GetTasks (QString ''nobody'')) state_seed
     = (Inr (Tasks (get_tasks (QString ''nobody'') state_seed)), state_seed)"
proof -
  have g: "get_tasks (QString ''oracle'') state_seed = [seed_3, seed_1]"
    by (simp add: select_all_def state_seed_def order_key_def seed_1_def seed_2_def seed_3_def
                  seed_4_def seed_row_def)
  have n: "''nobody'' \<notin> set owners \<and> list_all (\<lambda>t. check_owner (owner t)) (rows state_seed)"
    by (simp add: owners_def state_seed_def check_owner_def seed_1_def seed_2_def seed_3_def
                  seed_4_def seed_row_def)
  then have n': "\<forall>t\<in>set (rows state_seed). check_owner (owner t)"
    by (simp add: list_all_iff)
  have o: "''oracle'' \<noteq> []" "''nobody'' \<noteq> []"
    by simp_all
  note t = C6_owner_filter [of "''oracle''" state_seed QOther plain_conv 9]
  note u = C6_owner_filter [of "''nobody''" state_seed "QString ''nobody''" plain_conv 9]
  have a: "mset (get_tasks (QString ''oracle'') state_seed)
             = mset (filter (\<lambda>t. owner t = ''oracle'') (rows state_seed))"
    using conjunct1 [OF t] o(1) by blast
  have b: "mset (get_tasks QOther state_seed) = mset (rows state_seed)"
    using conjunct1 [OF conjunct2 [OF t]] by blast
  have c: "get_tasks (QString ''nobody'') state_seed = []"
    using u n n' o(2) by blast
  have d: "handle plain_conv 9 (GetTasks (QString ''nobody'')) state_seed
             = (Inr (Tasks (get_tasks (QString ''nobody'') state_seed)), state_seed)"
    using u by blast
  show ?thesis
    using g a b c d n by blast
qed

subsection \<open>Broadcasts\<close>

lemma delivered_broadcast:
  assumes "sseClients st1 = sseClients st"
  shows "delivered [Event ev p] st (broadcast ev p st1)"
  using assms by (simp add: delivered_def broadcast_def comp_def)

lemma run_update_clients: "run_update f i st = Inr st1 \<Longrightarrow> sseClients st1 = sseClients st"
  by (drule run_update_rows) simp

text \<open>
  C4. A successful create, update, move or delete appends exactly one frame to the stream
  of every current subscriber, and a failed one appends nothing: a create sends
  \<^verbatim>\<open>task-created\<close> with the row it returns, an update and a move both send
  \<^verbatim>\<open>task-updated\<close> with the row they return, a delete sends \<^verbatim>\<open>task-deleted\<close> with the
  id alone. The row sent is the row stored under its id in the resulting state.
\<close>

theorem C4_broadcast_once:
  "(\<forall>r st'. post_task cv now b st = (Inr r, st') \<longrightarrow>
      (\<exists>t. r = Created (Some t) \<and> select_by_id (task_id t) st' = Some t \<and>
           delivered [Event ''task-created'' (PTask (Some t))] st st')) \<and>
   (\<forall>r st'. put_task cv now i b st = (Inr r, st') \<longrightarrow>
      (\<exists>t. r = Updated (Some t) \<and> select_by_id i st' = Some t \<and>
           delivered [Event ''task-updated'' (PTask (Some t))] st st')) \<and>
   (\<forall>r st'. patch_move cv now i b st = (Inr r, st') \<longrightarrow>
      (\<exists>t. r = Updated (Some t) \<and> select_by_id i st' = Some t \<and>
           delivered [Event ''task-updated'' (PTask (Some t))] st st')) \<and>
   (\<forall>r st'. delete_task i st = (Inr r, st') \<longrightarrow>
      r = NoContent \<and> delivered [Event ''task-deleted'' (PId i)] st st') \<and>
   (\<forall>e st'. post_task cv now b st = (Inl e, st') \<or> put_task cv now i b st = (Inl e, st') \<or>
            patch_move cv now i b st = (Inl e, st') \<or> delete_task i st = (Inl e, st') \<longrightarrow>
      sseClients st' = sseClients st)"
proof (intro conjI allI impI)
  fix r st'
  assume a: "post_task cv now b st = (Inr r, st')"
  from a obtain t where
    r: "r = Created (Some t)" "select_by_id (task_id t) st' = Some t"
    and u: "st' = broadcast ''task-created'' (PTask (Some t))
                    (st\<lparr>rows := rows st @ [t], sqlite_sequence := next_rowid st\<rparr>)"
    by (rule post_task_InrE)
  have "delivered [Event ''task-created'' (PTask (Some t))] st st'"
    unfolding u by (rule delivered_broadcast) simp
  with r show "\<exists>t. r = Created (Some t) \<and> select_by_id (task_id t) st' = Some t \<and>
           delivered [Event ''task-created'' (PTask (Some t))] st st'"
    by blast
next
  fix r st'
  assume a: "put_task cv now i b st = (Inr r, st')"
  then obtain old where old: "select_by_id i st = Some old"
    using put_task_found by blast
  from old a obtain t st1 where
    r: "r = Updated (Some t)" "select_by_id i st' = Some t"
    and u: "sseClients st1 = sseClients st"
           "st' = broadcast ''task-updated'' (PTask (Some t)) st1"
    by (rule put_task_InrE) (blast dest: run_update_clients)
  have "delivered [Event ''task-updated'' (PTask (Some t))] st st'"
    unfolding u(2) by (rule delivered_broadcast [OF u(1)])
  with r show "\<exists>t. r = Updated (Some t) \<and> select_by_id i st' = Some t \<and>
           delivered [Event ''task-updated'' (PTask (Some t))] st st'"
    by blast
next
  fix r st'
  assume a: "patch_move cv now i b st = (Inr r, st')"
  then obtain old where old: "select_by_id i st = Some old"
    using patch_move_found by blast
  from old a obtain t st1 where
    r: "r = Updated (Some t)" "select_by_id i st' = Some t"
    and u: "sseClients st1 = sseClients st"
           "st' = broadcast ''task-updated'' (PTask (Some t)) st1"
    by (rule patch_move_InrE) (blast dest: run_update_clients)
  have "delivered [Event ''task-updated'' (PTask (Some t))] st st'"
    unfolding u(2) by (rule delivered_broadcast [OF u(1)])
  with r show "\<exists>t. r = Updated (Some t) \<and> select_by_id i st' = Some t \<and>
           delivered [Event ''task-updated'' (PTask (Some t))] st st'"
    by blast
next
  fix r st'
  assume a: "delete_task i st = (Inr r, st')"
  show "r = NoContent"
    using delete_task_Inr [OF a] by simp
next
  fix r st'
  assume a: "delete_task i st = (Inr r, st')"
  have "sseClients (delete_row i st) = sseClients st"
    by (simp add: delete_row_def)
  then show "delivered [Event ''task-deleted'' (PId i)] st st'"
    using delete_task_Inr [OF a] delivered_broadcast by simp
next
  fix e st'
  assume "post_task cv now b st = (Inl e, st') \<or> put_task cv now i b st = (Inl e, st') \<or>
            patch_move cv now i b st = (Inl e, st') \<or> delete_task i st = (Inl e, st')"
  then have "st' = st"
    by (auto dest: post_task_Inl put_task_Inl patch_move_Inl delete_task_Inl)
  then show "sseClients st' = sseClients st"
    by simp
qed

lemma state_sub_eq:
  "state_sub = \<lparr>rows = [row_A], sqlite_sequence = 1,
                sseClients = [\<lparr>cid = 3, written = [Connected]\<rparr>]\<rparr>"
  by (simp add: state_sub_def get_events_def state_A_eq)

lemma select_state_sub: "select_by_id 1 state_sub = Some row_A"
  by (simp add: state_sub_eq select_by_id_def row_A_def)

lemma post_state_sub:
  "post_task plain_conv 9 body_A state_sub = (Inr (Created (Some row_B)), state_sub_B)"
proof -
  have n: "next_rowid state_sub = 2"
    by (simp add: next_rowid_def state_sub_eq row_A_def)
  have r: "new_row plain_conv 9 body_A state_sub = row_B"
    using new_row_A
    by (simp add: new_row_def n next_rowid_init body_A_def empty_body_def row_A_def row_B_def)
  show ?thesis
    unfolding post_task_plain [OF post_valid_body_A plain_body_A] r n
    by (simp add: state_sub_eq state_sub_B_def broadcast_def)
qed

lemma put_body_retitle:
  assumes "select_by_id 1 st = Some row_A" and "rows st = [row_A]"
  shows "put_task plain_conv 9 1 body_retitle st =
           (Inr (Updated (Some row_A_retitled)),
            broadcast ''task-updated'' (PTask (Some row_A_retitled)) (st\<lparr>rows := [row_A_retitled]\<rparr>))"
proof -
  have v: "\<not> (truthy (b_owner body_retitle) \<and> \<not> includes_str owners (b_owner body_retitle))"
          "\<not> (truthy (b_status body_retitle) \<and> \<not> includes_str statuses (b_status body_retitle))"
          "list_all scalar (put_args body_retitle)"
    by (simp_all add: body_retitle_def empty_body_def put_args_def)
  have m: "put_merge plain_conv 9 body_retitle row_A = row_A_retitled"
    by (simp add: put_merge_def merge_row_def body_retitle_def empty_body_def row_A_def
                  row_A_retitled_def)
  have ok: "row_ok row_A_retitled"
    by (simp add: row_ok_def row_A_retitled_def row_A_def check_owner_def owners_def statuses_def)
  have i: "task_id row_A = 1"
    by (simp add: row_A_def)
  have u: "run_update (put_merge plain_conv 9 body_retitle) 1 st = Inr (st\<lparr>rows := [row_A_retitled]\<rparr>)"
    by (simp add: run_update_def assms(2) i m ok)
  have s: "select_by_id 1 (st\<lparr>rows := [row_A_retitled]\<rparr>) = Some row_A_retitled"
    by (simp add: select_by_id_def row_A_retitled_def row_A_def)
  show ?thesis
    by (simp add: put_task_scalar [OF assms(1) v] u s)
qed

lemma move_body_done:
  assumes "select_by_id 1 st = Some row_A" and "rows st = [row_A]"
  shows "patch_move plain_conv 9 1 body_done st =
           (Inr (Updated (Some row_A_done)),
            broadcast ''task-updated'' (PTask (Some row_A_done)) (st\<lparr>rows := [row_A_done]\<rparr>))"
proof -
  have v: "status_in_enum body_done" "scalar (js_or (b_position body_done) (JNum (Finite 0)))"
    by (simp_all add: status_in_enum_def body_done_def empty_body_def js_or_def)
  have m: "move_row plain_conv 9 body_done row_A = row_A_done"
    by (simp add: move_row_def move_assign_def body_done_def empty_body_def row_A_def
                  row_A_done_def js_or_def)
  have ok: "row_ok row_A_done"
    by (simp add: row_ok_def row_A_done_def row_A_def check_owner_def owners_def statuses_def)
  have i: "task_id row_A = 1"
    by (simp add: row_A_def)
  have u: "run_update (move_row plain_conv 9 body_done) 1 st = Inr (st\<lparr>rows := [row_A_done]\<rparr>)"
    by (simp add: run_update_def assms(2) i m ok)
  have s: "select_by_id 1 (st\<lparr>rows := [row_A_done]\<rparr>) = Some row_A_done"
    by (simp add: select_by_id_def row_A_done_def row_A_def)
  show ?thesis
    by (simp add: patch_move_scalar [OF assms(1) v] u s)
qed

lemma rows_state_sub: "rows state_sub = [row_A]"
  by (simp add: state_sub_eq)

lemma put_state_sub:
  "put_task plain_conv 9 1 body_retitle state_sub
     = (Inr (Updated (Some row_A_retitled)), state_sub_retitled)"
  unfolding put_body_retitle [OF select_state_sub rows_state_sub]
  by (simp add: state_sub_eq state_sub_retitled_def broadcast_def)

lemma move_state_sub:
  "patch_move plain_conv 9 1 body_done state_sub
     = (Inr (Updated (Some row_A_done)), state_sub_done)"
  unfolding move_body_done [OF select_state_sub rows_state_sub]
  by (simp add: state_sub_eq state_sub_done_def broadcast_def)

theorem C4_broadcast_once_witness:
  "sseClients state_sub = [\<lparr>cid = 3, written = [Connected]\<rparr>] \<and>
   post_task plain_conv 9 body_A state_sub = (Inr (Created (Some row_B)), state_sub_B) \<and>
   select_by_id (task_id row_B) state_sub_B = Some row_B \<and>
   delivered [Event ''task-created'' (PTask (Some row_B))] state_sub state_sub_B \<and>
   put_task plain_conv 9 1 body_retitle state_sub
     = (Inr (Updated (Some row_A_retitled)), state_sub_retitled) \<and>
   select_by_id 1 state_sub_retitled = Some row_A_retitled \<and>
   delivered [Event ''task-updated'' (PTask (Some row_A_retitled))] state_sub state_sub_retitled \<and>
   patch_move plain_conv 9 1 body_done state_sub
     = (Inr (Updated (Some row_A_done)), state_sub_done) \<and>
   select_by_id 1 state_sub_done = Some row_A_done \<and>
   delivered [Event ''task-updated'' (PTask (Some row_A_done))] state_sub state_sub_done \<and>
   delete_task 1 state_sub = (Inr NoContent, state_sub_gone) \<and>
   delivered [Event ''task-deleted'' (PId 1)] state_sub state_sub_gone \<and>
   delete_task 2 state_sub = (Inl (NotFoundError ''Task not found''), state_sub) \<and>
   sseClients state_sub_retitled
     = [\<lparr>cid = 3, written = [Connected, Event ''task-updated'' (PTask (Some row_A_retitled))]\<rparr>]"
proof -
  have s: "select_by_id 2 state_sub = None"
    by (simp add: state_sub_eq select_by_id_def row_A_def)
  have d: "delete_task 1 state_sub = (Inr NoContent, state_sub_gone)"
    by (simp add: delete_task_def select_state_sub)
       (simp add: state_sub_eq state_sub_gone_def broadcast_def delete_row_def row_A_def)
  have f: "delete_task 2 state_sub = (Inl (NotFoundError ''Task not found''), state_sub)"
    by (simp add: delete_task_def s)
  note t = C4_broadcast_once [of plain_conv 9 body_A state_sub 1]
  note u = C4_broadcast_once [of plain_conv 9 body_retitle state_sub 1]
  note w = C4_broadcast_once [of plain_conv 9 body_done state_sub 1]
  have p: "select_by_id (task_id row_B) state_sub_B = Some row_B \<and>
           delivered [Event ''task-created'' (PTask (Some row_B))] state_sub state_sub_B"
    using conjunct1 [OF t] post_state_sub by blast
  have p2: "select_by_id 1 state_sub_retitled = Some row_A_retitled \<and>
           delivered [Event ''task-updated'' (PTask (Some row_A_retitled))] state_sub
             state_sub_retitled"
    using conjunct1 [OF conjunct2 [OF u]] put_state_sub by blast
  have p3: "select_by_id 1 state_sub_done = Some row_A_done \<and>
           delivered [Event ''task-updated'' (PTask (Some row_A_done))] state_sub state_sub_done"
    using conjunct1 [OF conjunct2 [OF conjunct2 [OF w]]] move_state_sub by blast
  have q: "delivered [Event ''task-deleted'' (PId 1)] state_sub state_sub_gone"
    using conjunct1 [OF conjunct2 [OF conjunct2 [OF conjunct2 [OF t]]]] d by blast
  have c: "sseClients state_sub = [\<lparr>cid = 3, written = [Connected]\<rparr>]"
    by (simp add: state_sub_eq)
  have c': "sseClients state_sub_retitled
     = [\<lparr>cid = 3, written = [Connected, Event ''task-updated'' (PTask (Some row_A_retitled))]\<rparr>]"
    by (simp add: state_sub_retitled_def)
  show ?thesis
    using c c' post_state_sub put_state_sub move_state_sub p p2 p3 q d f by blast
qed

subsection \<open>The effect of one request on the table\<close>

lemma handle_effect:
  fixes cv now r st
  defines "st' \<equiv> snd (handle cv now r st)"
  shows "(rows st' = rows st \<and> sqlite_sequence st' = sqlite_sequence st) \<or>
         (\<exists>n. rows st' = rows st @ [n] \<and> task_id n = next_rowid st \<and>
              sqlite_sequence st' = next_rowid st \<and> created_at n = now \<and> updated_at n = now) \<or>
         (\<exists>i f. (\<forall>t. task_id (f t) = task_id t \<and> created_at (f t) = created_at t \<and>
                      updated_at (f t) = now) \<and>
                rows st' = map (\<lambda>t. if task_id t = i then f t else t) (rows st) \<and>
                sqlite_sequence st' = sqlite_sequence st) \<or>
         (\<exists>i. rows st' = filter (\<lambda>t. task_id t \<noteq> i) (rows st) \<and>
              sqlite_sequence st' = sqlite_sequence st)"
    (is "?A \<or> ?B \<or> ?C \<or> ?D")
proof (cases r)
  case (GetTasks q)
  then show ?thesis by (simp add: st'_def)
next
  case (GetEvents c)
  then show ?thesis by (simp add: st'_def get_events_def)
next
  case (PostTask b)
  obtain x s where p: "post_task cv now b st = (x, s)"
    by (cases "post_task cv now b st")
  show ?thesis
  proof (cases x)
    case (Inl e)
    then have "s = st" using p post_task_Inl by blast
    then show ?thesis using PostTask p by (simp add: st'_def)
  next
    case (Inr y)
    from p [unfolded Inr] obtain t where
      t: "task_id t = next_rowid st" "created_at t = now" "updated_at t = now"
      and u: "s = broadcast ''task-created'' (PTask (Some t))
                    (st\<lparr>rows := rows st @ [t], sqlite_sequence := next_rowid st\<rparr>)"
      by (rule post_task_InrE)
    have "rows st' = rows st @ [t] \<and> task_id t = next_rowid st \<and>
          sqlite_sequence st' = next_rowid st \<and> created_at t = now \<and> updated_at t = now"
      using PostTask p t u by (simp add: st'_def broadcast_def)
    then have ?B by blast
    then show ?thesis by blast
  qed
next
  case (PutTask i b)
  obtain x s where p: "put_task cv now i b st = (x, s)"
    by (cases "put_task cv now i b st")
  show ?thesis
  proof (cases x)
    case (Inl e)
    then have "s = st" using p put_task_Inl by blast
    then show ?thesis using PutTask p by (simp add: st'_def)
  next
    case (Inr y)
    then obtain old where old: "select_by_id i st = Some old"
      using p put_task_found by blast
    from old p [unfolded Inr] obtain ti de ow pr sta po st1 where
      u: "run_update (merge_row cv now ti de ow pr sta po) i st = Inr st1"
         "s = broadcast ''task-updated''
                (PTask (Some (merge_row cv now ti de ow pr sta po old))) st1"
      by (rule put_task_InrE)
    have "rows st' = map (\<lambda>t. if task_id t = i then merge_row cv now ti de ow pr sta po t else t)
                       (rows st) \<and>
          sqlite_sequence st' = sqlite_sequence st"
      using run_update_rows [OF u(1)] u(2) p PutTask by (simp add: st'_def broadcast_def)
    moreover have "\<forall>t. task_id (merge_row cv now ti de ow pr sta po t) = task_id t \<and>
                   created_at (merge_row cv now ti de ow pr sta po t) = created_at t \<and>
                   updated_at (merge_row cv now ti de ow pr sta po t) = now"
      by simp
    ultimately have ?C
      by blast
    then show ?thesis by blast
  qed
next
  case (PatchMove i b)
  obtain x s where p: "patch_move cv now i b st = (x, s)"
    by (cases "patch_move cv now i b st")
  show ?thesis
  proof (cases x)
    case (Inl e)
    then have "s = st" using p patch_move_Inl by blast
    then show ?thesis using PatchMove p by (simp add: st'_def)
  next
    case (Inr y)
    then obtain old where old: "select_by_id i st = Some old"
      using p patch_move_found by blast
    from old p [unfolded Inr] obtain sv po st1 where
      u: "run_update (move_assign cv now (SText sv) po) i st = Inr st1"
         "s = broadcast ''task-updated'' (PTask (Some (move_assign cv now (SText sv) po old))) st1"
      by (rule patch_move_InrE)
    have "rows st' = map (\<lambda>t. if task_id t = i then move_assign cv now (SText sv) po t else t)
                       (rows st) \<and>
          sqlite_sequence st' = sqlite_sequence st"
      using run_update_rows [OF u(1)] u(2) p PatchMove by (simp add: st'_def broadcast_def)
    moreover have "\<forall>t. task_id (move_assign cv now (SText sv) po t) = task_id t \<and>
                   created_at (move_assign cv now (SText sv) po t) = created_at t \<and>
                   updated_at (move_assign cv now (SText sv) po t) = now"
      by simp
    ultimately have ?C
      by blast
    then show ?thesis by blast
  qed
next
  case (DeleteTask i)
  show ?thesis
  proof (cases "select_by_id i st")
    case None
    then show ?thesis using DeleteTask by (simp add: st'_def delete_task_def)
  next
    case (Some old)
    then have "rows st' = filter (\<lambda>t. task_id t \<noteq> i) (rows st) \<and>
               sqlite_sequence st' = sqlite_sequence st"
      using DeleteTask by (simp add: st'_def delete_task_def broadcast_def delete_row_def)
    then have ?D by blast
    then show ?thesis by blast
  qed
qed

lemma step_effect:
  fixes cv now e st
  defines "st' \<equiv> step cv now e st"
  shows "(rows st' = rows st \<and> sqlite_sequence st' = sqlite_sequence st) \<or>
         (\<exists>n. rows st' = rows st @ [n] \<and> task_id n = next_rowid st \<and>
              sqlite_sequence st' = next_rowid st \<and> created_at n = now \<and> updated_at n = now) \<or>
         (\<exists>i f. (\<forall>t. task_id (f t) = task_id t \<and> created_at (f t) = created_at t \<and>
                      updated_at (f t) = now) \<and>
                rows st' = map (\<lambda>t. if task_id t = i then f t else t) (rows st) \<and>
                sqlite_sequence st' = sqlite_sequence st) \<or>
         (\<exists>i. rows st' = filter (\<lambda>t. task_id t \<noteq> i) (rows st) \<and>
              sqlite_sequence st' = sqlite_sequence st)"
proof (cases e)
  case (Request r)
  then show ?thesis
    using handle_effect [of cv now r st] by (simp add: st'_def)
next
  case (Close res)
  then show ?thesis
    by (simp add: st'_def close_events_def)
qed

lemma wf_stateD:
  assumes "wf_state clk st" and "t \<in> set (rows st)"
  shows "task_id t \<le> sqlite_sequence st" "created_at t \<le> updated_at t" "updated_at t \<le> clk"
  using assms by (simp_all add: wf_state_def list_all_iff)

lemma wf_state_unique:
  assumes "wf_state clk st" and "t \<in> set (rows st)" and "u \<in> set (rows st)"
    and "task_id u = task_id t"
  shows "u = t"
proof -
  have "inj_on task_id (set (rows st))"
    using assms(1) by (simp add: wf_state_def distinct_map)
  then show ?thesis
    using assms(2-4) by (auto dest: inj_onD)
qed

lemma wf_step:
  assumes wf: "wf_state clk st" and le: "clk \<le> now"
  shows "wf_state now (step cv now e st)"
proof -
  let ?st' = "step cv now e st"
  let ?P = "\<lambda>s t. task_id t \<le> s \<and> created_at t \<le> updated_at t \<and> updated_at t \<le> now"
  have d: "distinct (map task_id (rows st))"
    using wf by (simp add: wf_state_def)
  have old: "?P (sqlite_sequence st) t" if "t \<in> set (rows st)" for t
    using wf_stateD [OF wf that] le by simp
  have goal: "wf_state now ?st' \<longleftrightarrow>
              distinct (map task_id (rows ?st')) \<and> (\<forall>t\<in>set (rows ?st'). ?P (sqlite_sequence ?st') t)"
    by (simp add: wf_state_def list_all_iff)
  from step_effect [of cv now e st]
  consider
    (same) "rows ?st' = rows st" "sqlite_sequence ?st' = sqlite_sequence st"
  | (ins) n where "rows ?st' = rows st @ [n]" "task_id n = next_rowid st"
      "sqlite_sequence ?st' = next_rowid st" "created_at n = now" "updated_at n = now"
  | (upd) i f where "\<forall>t. task_id (f t) = task_id t \<and> created_at (f t) = created_at t \<and>
                      updated_at (f t) = now"
      "rows ?st' = map (\<lambda>t. if task_id t = i then f t else t) (rows st)"
      "sqlite_sequence ?st' = sqlite_sequence st"
  | (del) i where "rows ?st' = filter (\<lambda>t. task_id t \<noteq> i) (rows st)"
      "sqlite_sequence ?st' = sqlite_sequence st"
    by blast
  then show ?thesis
  proof cases
    case same
    then show ?thesis
      unfolding goal using d old by simp
  next
    case ins
    have fresh: "task_id n \<notin> task_id ` set (rows st)"
      using next_rowid_gt [of _ st] ins(2) by fastforce
    have lt: "sqlite_sequence st < next_rowid st"
      by (rule next_rowid_seq)
    show ?thesis
      unfolding goal using d old fresh lt ins by fastforce
  next
    case upd
    have ids: "map task_id (rows ?st') = map task_id (rows st)"
      using upd(1) by (simp add: upd(2) comp_def)
    have "?P (sqlite_sequence ?st') t" if "t \<in> set (rows ?st')" for t
    proof -
      from that obtain u where u: "u \<in> set (rows st)" "t = (if task_id u = i then f u else u)"
        unfolding upd(2) by auto
      show ?thesis
        using old [OF u(1)] upd(1) wf_stateD(2,3) [OF wf u(1)] le
        by (cases "task_id u = i") (simp_all add: u(2) upd(3))
    qed
    then show ?thesis
      unfolding goal using d ids by simp
  next
    case del
    have "distinct (map task_id (rows ?st'))"
      unfolding del(1) using d by (simp add: distinct_map_filter)
    then show ?thesis
      unfolding goal using old del by simp
  qed
qed

lemma wf_init: "wf_state 0 init_state"
  by (simp add: wf_state_def init_state_def)

lemma reachable_wf: "reachable cv clk st \<Longrightarrow> wf_state clk st"
  by (induction rule: reachable.induct) (simp_all add: wf_init wf_step)

text \<open>An id that the counter has passed and that is not in the table never comes back.\<close>

lemma absent_step:
  assumes "i \<le> sqlite_sequence st" and "i \<notin> task_id ` set (rows st)"
  shows "i \<le> sqlite_sequence (step cv now e st) \<and>
         i \<notin> task_id ` set (rows (step cv now e st))"
proof -
  let ?st' = "step cv now e st"
  from step_effect [of cv now e st]
  consider
    (same) "rows ?st' = rows st" "sqlite_sequence ?st' = sqlite_sequence st"
  | (ins) n where "rows ?st' = rows st @ [n]" "task_id n = next_rowid st"
      "sqlite_sequence ?st' = next_rowid st"
  | (upd) j f where "\<forall>t. task_id (f t) = task_id t \<and> created_at (f t) = created_at t \<and>
                      updated_at (f t) = now"
      "rows ?st' = map (\<lambda>t. if task_id t = j then f t else t) (rows st)"
      "sqlite_sequence ?st' = sqlite_sequence st"
  | (del) j where "rows ?st' = filter (\<lambda>t. task_id t \<noteq> j) (rows st)"
      "sqlite_sequence ?st' = sqlite_sequence st"
    by blast
  then show ?thesis
  proof cases
    case same
    then show ?thesis using assms by simp
  next
    case ins
    then show ?thesis using assms next_rowid_seq [of st] by auto
  next
    case upd
    have "map task_id (rows ?st') = map task_id (rows st)"
      using upd(1) by (simp add: upd(2) comp_def)
    then have "task_id ` set (rows ?st') = task_id ` set (rows st)"
      by (metis set_map)
    then show ?thesis using assms upd(3) by simp
  next
    case del
    then show ?thesis using assms by auto
  qed
qed

lemma absent_run:
  assumes "i \<le> sqlite_sequence st" and "i \<notin> task_id ` set (rows st)"
  shows "i \<notin> task_id ` set (rows (run cv st evs))"
  using assms
proof (induction evs arbitrary: st)
  case Nil
  then show ?case by simp
next
  case (Cons ev evs)
  obtain now e where ev: "ev = (now, e)" by (cases ev)
  show ?case
    using Cons.IH [of "step cv now e st"] absent_step [OF Cons.prems, of cv now e]
    by (simp add: ev)
qed

lemma same_id_step:
  assumes wf: "wf_state clk st" and le: "clk \<le> now"
    and t: "t \<in> set (rows st)" and t': "t' \<in> set (rows (step cv now e st))"
    and eq: "task_id t' = task_id t"
  shows "created_at t' = created_at t \<and> updated_at t \<le> updated_at t'"
proof -
  let ?st' = "step cv now e st"
  from step_effect [of cv now e st]
  consider
    (same) "rows ?st' = rows st"
  | (ins) n where "rows ?st' = rows st @ [n]" "task_id n = next_rowid st"
  | (upd) i f where "\<forall>t. task_id (f t) = task_id t \<and> created_at (f t) = created_at t \<and>
                      updated_at (f t) = now"
      "rows ?st' = map (\<lambda>t. if task_id t = i then f t else t) (rows st)"
  | (del) i where "rows ?st' = filter (\<lambda>t. task_id t \<noteq> i) (rows st)"
    by blast
  then show ?thesis
  proof cases
    case same
    then have "t' = t" using wf_state_unique [OF wf t _ eq] t' by simp
    then show ?thesis by simp
  next
    case ins
    have "t' \<noteq> n"
      using next_rowid_gt [OF t] eq ins(2) by auto
    then have "t' \<in> set (rows st)" using t' ins(1) by simp
    then have "t' = t" using wf_state_unique [OF wf t _ eq] by simp
    then show ?thesis by simp
  next
    case upd
    from t' obtain u where u: "u \<in> set (rows st)" "t' = (if task_id u = i then f u else u)"
      unfolding upd(2) by auto
    have "task_id u = task_id t"
      using u(2) eq upd(1) by (cases "task_id u = i") simp_all
    then have "u = t" using wf_state_unique [OF wf t u(1)] by simp
    then show ?thesis
      using u(2) upd(1) wf_stateD(3) [OF wf t] le by (cases "task_id t = i") simp_all
  next
    case del
    then have "t' \<in> set (rows st)" using t' by simp
    then have "t' = t" using wf_state_unique [OF wf t _ eq] by simp
    then show ?thesis by simp
  qed
qed

lemma same_id_run:
  assumes "wf_state clk st" and "times_ok clk evs"
    and "t \<in> set (rows st)" and "t' \<in> set (rows (run cv st evs))" and "task_id t' = task_id t"
  shows "created_at t' = created_at t \<and> updated_at t \<le> updated_at t'"
  using assms
proof (induction evs arbitrary: st clk t)
  case Nil
  then have "t' = t" using wf_state_unique [of clk st t t'] by simp
  then show ?case by simp
next
  case (Cons ev evs)
  obtain now e where ev: "ev = (now, e)" by (cases ev)
  let ?st1 = "step cv now e st"
  have le: "clk \<le> now" and ok: "times_ok now evs"
    using Cons.prems(2) by (simp_all add: ev)
  have wf1: "wf_state now ?st1"
    by (rule wf_step [OF Cons.prems(1) le])
  have t': "t' \<in> set (rows (run cv ?st1 evs))"
    using Cons.prems(4) by (simp add: ev)
  show ?case
  proof (cases "task_id t \<in> task_id ` set (rows ?st1)")
    case True
    then obtain t1 where t1: "t1 \<in> set (rows ?st1)" "task_id t1 = task_id t"
      by auto
    have a: "created_at t1 = created_at t \<and> updated_at t \<le> updated_at t1"
      by (rule same_id_step [OF Cons.prems(1) le Cons.prems(3) t1])
    have b: "created_at t' = created_at t1 \<and> updated_at t1 \<le> updated_at t'"
      using Cons.IH [OF wf1 ok t1(1) t'] Cons.prems(5) t1(2) by simp
    show ?thesis using a b by simp
  next
    case False
    have "task_id t \<le> sqlite_sequence st"
      by (rule wf_stateD(1) [OF Cons.prems(1) Cons.prems(3)])
    moreover have "sqlite_sequence st \<le> sqlite_sequence ?st1"
      using step_effect [of cv now e st] next_rowid_seq [of st] by auto
    ultimately have "task_id t \<notin> task_id ` set (rows (run cv ?st1 evs))"
      using absent_run [OF _ False] by simp
    then show ?thesis
      using t' Cons.prems(5) by (metis imageI)
  qed
qed

subsection \<open>Timestamps\<close>

lemma reachable_state_A: "reachable plain_conv 5 state_A"
proof -
  have "reachable plain_conv 5 (step plain_conv 5 (Request (PostTask body_A)) init_state)"
    by (rule reachable.step [OF reachable.start]) simp
  then show ?thesis
    by (simp add: state_A_def)
qed

lemma rows_state_A: "rows state_A = [row_A]"
  by (simp add: state_A_eq)

lemma put_state_A:
  "put_task plain_conv 9 1 body_retitle state_A =
     (Inr (Updated (Some row_A_retitled)),
      \<lparr>rows = [row_A_retitled], sqlite_sequence = 1, sseClients = []\<rparr>)"
  unfolding put_body_retitle [OF select_state_A rows_state_A]
  by (simp add: state_A_eq broadcast_def)

lemma move_state_A:
  "patch_move plain_conv 9 1 body_done state_A =
     (Inr (Updated (Some row_A_done)),
      \<lparr>rows = [row_A_done], sqlite_sequence = 1, sseClients = []\<rparr>)"
  unfolding move_body_done [OF select_state_A rows_state_A]
  by (simp add: state_A_eq broadcast_def)

text \<open>
  C8. Let a state be reached from the empty table by requests whose times never decrease,
  and let any further requests follow, again at times that never decrease. Then in the
  state reached no row was created after it was last updated; a row that is still in the
  table after the further requests has the creation time it had and an update time that
  is not earlier; and every successful update or move returns the stored row with its
  update time set to the time of the request.
\<close>

theorem C8_timestamps:
  assumes "reachable cv clk st" and "times_ok clk evs"
  shows "(\<forall>t\<in>set (rows st). created_at t \<le> updated_at t) \<and>
         (\<forall>t\<in>set (rows st). \<forall>t'\<in>set (rows (run cv st evs)).
            task_id t' = task_id t \<longrightarrow>
              created_at t' = created_at t \<and> updated_at t \<le> updated_at t') \<and>
         (\<forall>now i b r st'.
            put_task cv now i b st = (Inr r, st') \<or> patch_move cv now i b st = (Inr r, st') \<longrightarrow>
              (\<exists>t. r = Updated (Some t) \<and> select_by_id i st' = Some t \<and> updated_at t = now))"
proof -
  have wf: "wf_state clk st"
    by (rule reachable_wf [OF assms(1)])
  have a: "\<forall>t\<in>set (rows st). created_at t \<le> updated_at t"
    using wf_stateD(2) [OF wf] by blast
  have b: "\<forall>t\<in>set (rows st). \<forall>t'\<in>set (rows (run cv st evs)).
            task_id t' = task_id t \<longrightarrow>
              created_at t' = created_at t \<and> updated_at t \<le> updated_at t'"
    using same_id_run [OF wf assms(2)] by blast
  have c: "\<exists>t. r = Updated (Some t) \<and> select_by_id i st' = Some t \<and> updated_at t = now"
    if p: "put_task cv now i b st = (Inr r, st') \<or> patch_move cv now i b st = (Inr r, st')"
    for now i b r st'
    using p
  proof
    assume q: "put_task cv now i b st = (Inr r, st')"
    then obtain old where old: "select_by_id i st = Some old"
      using put_task_found by blast
    from old q obtain t where
      "r = Updated (Some t)" "select_by_id i st' = Some t" "updated_at t = now"
      by (rule put_task_InrE) simp
    then show ?thesis
      by blast
  next
    assume q: "patch_move cv now i b st = (Inr r, st')"
    then obtain old where old: "select_by_id i st = Some old"
      using patch_move_found by blast
    from old q obtain t where
      "r = Updated (Some t)" "select_by_id i st' = Some t" "updated_at t = now"
      by (rule patch_move_InrE) simp
    then show ?thesis
      by blast
  qed
  show ?thesis
    using a b c by blast
qed

theorem C8_timestamps_witness:
  "reachable plain_conv 5 state_A \<and>
   times_ok 5 [(9, Request (PutTask 1 body_retitle))] \<and>
   times_ok 5 [(9, Request (PatchMove 1 body_done))] \<and>
   rows state_A = [row_A] \<and> created_at row_A = 5 \<and> updated_at row_A = 5 \<and>
   put_task plain_conv 9 1 body_retitle state_A =
     (Inr (Updated (Some row_A_retitled)),
      \<lparr>rows = [row_A_retitled], sqlite_sequence = 1, sseClients = []\<rparr>) \<and>
   rows (run plain_conv state_A [(9, Request (PutTask 1 body_retitle))]) = [row_A_retitled] \<and>
   task_id row_A_retitled = task_id row_A \<and> title row_A_retitled = ''B'' \<and>
   created_at row_A_retitled = created_at row_A \<and>
   updated_at row_A \<le> updated_at row_A_retitled \<and> updated_at row_A_retitled = 9 \<and>
   patch_move plain_conv 9 1 body_done state_A =
     (Inr (Updated (Some row_A_done)),
      \<lparr>rows = [row_A_done], sqlite_sequence = 1, sseClients = []\<rparr>) \<and>
   rows (run plain_conv state_A [(9, Request (PatchMove 1 body_done))]) = [row_A_done] \<and>
   task_id row_A_done = task_id row_A \<and>
   created_at row_A \<le> updated_at row_A \<and>
   created_at row_A_done = created_at row_A \<and>
   updated_at row_A \<le> updated_at row_A_done \<and> updated_at row_A_done = 9"
proof -
  have t: "times_ok 5 [(9, Request (PatchMove 1 body_done))]"
    by simp
  have t2: "times_ok 5 [(9, Request (PutTask 1 body_retitle))]"
    by simp
  have r: "rows state_A = [row_A]"
    by (simp add: state_A_eq)
  have s: "created_at row_A = 5 \<and> updated_at row_A = 5 \<and> title row_A_retitled = ''B''"
    by (simp add: row_A_def row_A_retitled_def)
  have r': "rows (run plain_conv state_A [(9, Request (PatchMove 1 body_done))]) = [row_A_done]"
    by (simp add: move_state_A)
  have r2: "rows (run plain_conv state_A [(9, Request (PutTask 1 body_retitle))]) = [row_A_retitled]"
    by (simp add: put_state_A)
  have i: "task_id row_A_done = task_id row_A"
    by (simp add: row_A_done_def)
  have i2: "task_id row_A_retitled = task_id row_A"
    by (simp add: row_A_retitled_def)
  note c = C8_timestamps [OF reachable_state_A t]
  note d = C8_timestamps [OF reachable_state_A t2]
  have c1: "created_at row_A \<le> updated_at row_A"
    using conjunct1 [OF c] r by simp
  have c2: "created_at row_A_done = created_at row_A \<and> updated_at row_A \<le> updated_at row_A_done"
    using conjunct1 [OF conjunct2 [OF c]] r r' i by simp
  have c3: "updated_at row_A_done = 9"
    using conjunct2 [OF conjunct2 [OF c]] move_state_A by blast
  have d2: "created_at row_A_retitled = created_at row_A \<and>
            updated_at row_A \<le> updated_at row_A_retitled"
    using conjunct1 [OF conjunct2 [OF d]] r r2 i2 by simp
  have d3: "updated_at row_A_retitled = 9"
    using conjunct2 [OF conjunct2 [OF d]] put_state_A by blast
  show ?thesis
    using reachable_state_A t t2 r s r' r2 i i2 c1 c2 c3 d2 d3 move_state_A put_state_A by blast
qed

subsection \<open>Deleting\<close>

lemma find_filter_other:
  "find (\<lambda>t. task_id t = j) (filter (\<lambda>t. task_id t \<noteq> i) xs)
     = (if j = i then None else find (\<lambda>t. task_id t = j) xs)"
  by (induction xs) auto

lemma length_filter_distinct:
  assumes "distinct (map task_id xs)" and "i \<in> task_id ` set xs"
  shows "length (filter (\<lambda>t. task_id t \<noteq> i) xs) + 1 = length xs"
  using assms
proof (induction xs)
  case Nil
  then show ?case by simp
next
  case (Cons x xs)
  show ?case
  proof (cases "task_id x = i")
    case True
    then have "i \<notin> task_id ` set xs"
      using Cons.prems(1) by auto
    then have "filter (\<lambda>t. task_id t \<noteq> i) xs = xs"
      by (auto simp: filter_id_conv)
    then show ?thesis using True by simp
  next
    case False
    then show ?thesis using Cons by auto
  qed
qed

text \<open>
  C9. Deleting an unknown id answers \<open>NotFoundError\<close> (404) and leaves the state as it
  was. Deleting a known id answers 204 and leaves the table without the rows of that id
  and with every other row as it was, in the same order; a later update, move or delete of
  the id answers \<open>NotFoundError\<close>. In a state reached from the empty table exactly one
  row goes, and the id stays absent after any further requests.
\<close>

theorem C9_delete:
  "(select_by_id i st = None \<longrightarrow>
      delete_task i st = (Inl (NotFoundError ''Task not found''), st)) \<and>
   (select_by_id i st \<noteq> None \<longrightarrow>
      fst (delete_task i st) = Inr NoContent \<and>
      rows (snd (delete_task i st)) = filter (\<lambda>t. task_id t \<noteq> i) (rows st) \<and>
      sqlite_sequence (snd (delete_task i st)) = sqlite_sequence st \<and>
      select_by_id i (snd (delete_task i st)) = None \<and>
      (\<forall>j. j \<noteq> i \<longrightarrow> select_by_id j (snd (delete_task i st)) = select_by_id j st) \<and>
      fst (put_task cv now i b (snd (delete_task i st))) = Inl (NotFoundError ''Task not found'') \<and>
      fst (patch_move cv now i b (snd (delete_task i st))) = Inl (NotFoundError ''Task not found'') \<and>
      fst (delete_task i (snd (delete_task i st))) = Inl (NotFoundError ''Task not found'') \<and>
      (reachable cv clk st \<longrightarrow>
         length (rows (snd (delete_task i st))) + 1 = length (rows st) \<and>
         (\<forall>evs. select_by_id i (run cv (snd (delete_task i st)) evs) = None)))"
proof (intro conjI impI)
  assume "select_by_id i st = None"
  then show "delete_task i st = (Inl (NotFoundError ''Task not found''), st)"
    by (simp add: delete_task_def)
next
  assume "select_by_id i st \<noteq> None"
  then obtain old where old: "select_by_id i st = Some old"
    by blast
  let ?st' = "snd (delete_task i st)"
  have st': "?st' = broadcast ''task-deleted'' (PId i) (delete_row i st)"
    by (simp add: delete_task_def old)
  show "fst (delete_task i st) = Inr NoContent"
    by (simp add: delete_task_def old)
  show r: "rows ?st' = filter (\<lambda>t. task_id t \<noteq> i) (rows st)"
    by (simp add: st' broadcast_def delete_row_def)
  show q: "sqlite_sequence ?st' = sqlite_sequence st"
    by (simp add: st' broadcast_def delete_row_def)
  show n: "select_by_id i ?st' = None"
    by (simp add: select_by_id_def r find_filter_other)
  show "\<forall>j. j \<noteq> i \<longrightarrow> select_by_id j ?st' = select_by_id j st"
    by (simp add: select_by_id_def r find_filter_other)
  show "fst (put_task cv now i b ?st') = Inl (NotFoundError ''Task not found'')"
    by (simp add: put_task_def n)
  show "fst (patch_move cv now i b ?st') = Inl (NotFoundError ''Task not found'')"
    by (simp add: patch_move_def n)
  show "fst (delete_task i ?st') = Inl (NotFoundError ''Task not found'')"
    by (simp add: delete_task_absent [OF n])
  {
    assume "reachable cv clk st"
    then have wf: "wf_state clk st"
      by (rule reachable_wf)
    have mem: "i \<in> task_id ` set (rows st)"
      using select_by_id_mem [OF old] select_by_id_id [OF old] by force
    show "length (rows ?st') + 1 = length (rows st)"
      unfolding r using wf mem by (intro length_filter_distinct) (simp_all add: wf_state_def)
    have le: "i \<le> sqlite_sequence ?st'"
      using wf_stateD(1) [OF wf select_by_id_mem [OF old]] select_by_id_id [OF old] q by simp
    have ab: "i \<notin> task_id ` set (rows ?st')"
      using n by (simp add: select_by_id_None)
    show "\<forall>evs. select_by_id i (run cv ?st' evs) = None"
      using absent_run [OF le ab] by (simp add: select_by_id_None)
  }
qed

theorem C9_delete_witness:
  "select_by_id 9999 state_seed = None \<and>
   delete_task 9999 state_seed = (Inl (NotFoundError ''Task not found''), state_seed) \<and>
   select_by_id 2 state_seed = Some seed_2 \<and>
   fst (delete_task 2 state_seed) = Inr NoContent \<and>
   rows (snd (delete_task 2 state_seed)) = [seed_1, seed_3, seed_4] \<and>
   select_by_id 2 (snd (delete_task 2 state_seed)) = None \<and>
   select_by_id 3 (snd (delete_task 2 state_seed)) = Some seed_3 \<and>
   fst (delete_task 2 (snd (delete_task 2 state_seed))) = Inl (NotFoundError ''Task not found'') \<and>
   reachable plain_conv 5 state_A \<and> select_by_id 1 state_A = Some row_A \<and>
   length (rows (snd (delete_task 1 state_A))) + 1 = length (rows state_A) \<and>
   select_by_id 1 (run plain_conv (snd (delete_task 1 state_A)) [(9, Request (PostTask body_A))])
     = None"
proof -
  have s1: "select_by_id 9999 state_seed = None"
    by (simp add: select_by_id_def state_seed_def seed_1_def seed_2_def seed_3_def seed_4_def
                  seed_row_def)
  have s2: "select_by_id 2 state_seed = Some seed_2"
    by (simp add: select_by_id_def state_seed_def seed_1_def seed_2_def seed_row_def)
  have s3: "select_by_id 3 state_seed = Some seed_3"
    by (simp add: select_by_id_def state_seed_def seed_1_def seed_2_def seed_3_def seed_row_def)
  have f: "filter (\<lambda>t. task_id t \<noteq> 2) (rows state_seed) = [seed_1, seed_3, seed_4]"
    by (simp add: state_seed_def seed_1_def seed_2_def seed_3_def seed_4_def seed_row_def)
  note a = C9_delete [of 9999 state_seed plain_conv 9 empty_body 0]
  note b = C9_delete [of 2 state_seed plain_conv 9 empty_body 0]
  note c = C9_delete [of 1 state_A plain_conv 9 empty_body 5]
  have a1: "delete_task 9999 state_seed = (Inl (NotFoundError ''Task not found''), state_seed)"
    using a s1 by blast
  have b0: "select_by_id 2 state_seed \<noteq> None"
    by (simp add: s2)
  have b1: "fst (delete_task 2 state_seed) = Inr NoContent"
    using b b0 by blast
  have b2: "rows (snd (delete_task 2 state_seed)) = [seed_1, seed_3, seed_4]"
    using b b0 f by simp
  have b3: "select_by_id 2 (snd (delete_task 2 state_seed)) = None"
    using b b0 by blast
  have "select_by_id 3 (snd (delete_task 2 state_seed)) = select_by_id 3 state_seed"
    using b b0 by simp
  then have b4: "select_by_id 3 (snd (delete_task 2 state_seed)) = Some seed_3"
    by (simp add: s3)
  have b5: "fst (delete_task 2 (snd (delete_task 2 state_seed)))
              = Inl (NotFoundError ''Task not found'')"
    using b b0 by blast
  have c0: "select_by_id 1 state_A \<noteq> None"
    by (simp add: select_state_A)
  have c1: "length (rows (snd (delete_task 1 state_A))) + 1 = length (rows state_A)"
    using c c0 reachable_state_A by blast
  have c2: "select_by_id 1 (run plain_conv (snd (delete_task 1 state_A))
                              [(9, Request (PostTask body_A))]) = None"
    using c c0 reachable_state_A by blast
  show ?thesis
    using s1 s2 a1 b1 b2 b3 b4 b5 c1 c2 reachable_state_A select_state_A by blast
qed

end
